theory Spec2Isabelle
  imports Complex_Main "HOL-Library.Multiset"
begin

section \<open>The in-memory vector store of the Berkshire RAG application\<close>

text \<open>
  This theory embeds the classes \<open>SimpleMemoryVectorStore\<close> and
  \<open>BerkshireVectorStore\<close> (the file that declares \<open>VECTORS_FILE\<close>) and proves
  the properties of the specification about them.

  Modelling boundaries, stated once:
  \<^item> A JavaScript number is an IEEE 754 double. A finite double is the \<open>real\<close> it
    denotes, the three special values are constructors of their own, and every
    operation rounds its exact result to the nearest double (ties to even), with
    gradual underflow and overflow to an infinity. The sign of zero is not
    represented.
  \<^item> \<open>async\<close> functions are run to completion one after the other; the state they
    share is passed explicitly, a rejected promise is the value \<open>Inl\<close>.
  \<^item> A metadata value is a scalar (undefined, null, boolean, number, string); arrays
    and nested objects are left out. The entries of an embedding are finite numbers
    (any real in the statements, the doubles among them).
  \<^item> Parameters are of their declared types; the count \<open>k\<close> of a query is an integer,
    of either sign. Default arguments are supplied by the caller.
\<close>

subsection \<open>Numbers\<close>

datatype jsnum = Num real | PosInf | NegInf | NaN

fun js_neg :: "jsnum \<Rightarrow> jsnum" where
  "js_neg (Num x) = Num (- x)"
| "js_neg PosInf = NegInf"
| "js_neg NegInf = PosInf"
| "js_neg NaN = NaN"

text \<open>The infinity of the given sign.\<close>

definition inf_signed :: "bool \<Rightarrow> jsnum" where
  "inf_signed positive = (if positive then PosInf else NegInf)"

text \<open>
  Rounding. The doubles near a real \<open>x\<close> are the integer multiples of \<open>2\<close> to the power
  \<open>ulp_exponent x\<close>: 52 below the binary exponent of \<open>x\<close> (53 significant bits), and never
  below \<open>-1074\<close>, the spacing of the subnormal numbers. \<open>nearest x\<close> is the multiple
  nearest to \<open>x\<close>, the even one of two that are equally near. \<open>to_double x\<close> is the double
  an operation with the exact result \<open>x\<close> returns: \<open>nearest x\<close>, or an infinity when that
  is \<open>2\<^sup>1\<^sup>0\<^sup>2\<^sup>4\<close> or more in magnitude.
\<close>

definition ulp_exponent :: "real \<Rightarrow> int" where
  "ulp_exponent x = max (- 1074) (\<lfloor>log 2 \<bar>x\<bar>\<rfloor> - 52)"

definition round_half_even :: "real \<Rightarrow> int" where
  "round_half_even t =
     (if t - of_int \<lfloor>t\<rfloor> < 1 / 2 then \<lfloor>t\<rfloor>
      else if 1 / 2 < t - of_int \<lfloor>t\<rfloor> then \<lfloor>t\<rfloor> + 1
      else if even \<lfloor>t\<rfloor> then \<lfloor>t\<rfloor> else \<lfloor>t\<rfloor> + 1)"

definition nearest :: "real \<Rightarrow> real" where
  "nearest x = of_int (round_half_even (x / 2 powi ulp_exponent x)) * 2 powi ulp_exponent x"

definition to_double :: "real \<Rightarrow> jsnum" where
  "to_double x =
     (if x = 0 then Num 0
      else if 2 ^ 1024 \<le> \<bar>nearest x\<bar> then inf_signed (0 < x)
      else Num (nearest x))"

text \<open>
  The operators \<open>+\<close>, \<open>-\<close>, \<open>*\<close>, \<open>/\<close> and \<open>Math.sqrt\<close> (taken as correctly rounded, which
  the processor instruction is).
\<close>

fun js_add :: "jsnum \<Rightarrow> jsnum \<Rightarrow> jsnum" where
  "js_add (Num x) (Num y) = to_double (x + y)"
| "js_add NaN _ = NaN"
| "js_add _ NaN = NaN"
| "js_add PosInf NegInf = NaN"
| "js_add NegInf PosInf = NaN"
| "js_add PosInf _ = PosInf"
| "js_add NegInf _ = NegInf"
| "js_add (Num x) PosInf = PosInf"
| "js_add (Num x) NegInf = NegInf"

definition js_sub :: "jsnum \<Rightarrow> jsnum \<Rightarrow> jsnum" where
  "js_sub a b = js_add a (js_neg b)"

fun js_mul :: "jsnum \<Rightarrow> jsnum \<Rightarrow> jsnum" where
  "js_mul (Num x) (Num y) = to_double (x * y)"
| "js_mul NaN _ = NaN"
| "js_mul _ NaN = NaN"
| "js_mul PosInf PosInf = PosInf"
| "js_mul PosInf NegInf = NegInf"
| "js_mul NegInf PosInf = NegInf"
| "js_mul NegInf NegInf = PosInf"
| "js_mul PosInf (Num y) = (if y = 0 then NaN else inf_signed (0 < y))"
| "js_mul NegInf (Num y) = (if y = 0 then NaN else inf_signed (y < 0))"
| "js_mul (Num x) PosInf = (if x = 0 then NaN else inf_signed (0 < x))"
| "js_mul (Num x) NegInf = (if x = 0 then NaN else inf_signed (x < 0))"

fun js_sqrt :: "jsnum \<Rightarrow> jsnum" where
  "js_sqrt (Num x) = (if x < 0 then NaN else to_double (sqrt x))"
| "js_sqrt PosInf = PosInf"
| "js_sqrt NegInf = NaN"
| "js_sqrt NaN = NaN"

text \<open>
  Division never raises: a zero divisor gives \<open>NaN\<close> for \<open>0 / 0\<close> and an infinity
  otherwise. The divisor zero is the positive zero here, which is the zero that the
  one divisor of the program, a product of two square roots, can be.
\<close>

fun js_div :: "jsnum \<Rightarrow> jsnum \<Rightarrow> jsnum" where
  "js_div (Num x) (Num y) =
     (if y \<noteq> 0 then to_double (x / y)
      else if x = 0 then NaN else inf_signed (0 < x))"
| "js_div NaN _ = NaN"
| "js_div _ NaN = NaN"
| "js_div (Num x) PosInf = Num 0"
| "js_div (Num x) NegInf = Num 0"
| "js_div PosInf (Num y) = inf_signed (0 \<le> y)"
| "js_div NegInf (Num y) = inf_signed (y < 0)"
| "js_div PosInf _ = NaN"
| "js_div NegInf _ = NaN"

text \<open>The relational operator \<open>a > b\<close>: false as soon as one side is \<open>NaN\<close>.\<close>

fun js_gt :: "jsnum \<Rightarrow> jsnum \<Rightarrow> bool" where
  "js_gt (Num x) (Num y) = (y < x)"
| "js_gt NaN _ = False"
| "js_gt _ NaN = False"
| "js_gt PosInf PosInf = False"
| "js_gt PosInf _ = True"
| "js_gt NegInf _ = False"
| "js_gt (Num x) PosInf = False"
| "js_gt (Num x) NegInf = True"

subsection \<open>Cosine similarity\<close>

type_synonym vector = "real list"

text \<open>
  \<open>b[i]\<close> as an operand of \<open>*\<close>: past the end of the array the read gives
  \<open>undefined\<close>, which the multiplication converts to \<open>NaN\<close>.
\<close>

definition js_idx :: "vector \<Rightarrow> nat \<Rightarrow> jsnum" where
  "js_idx v i = (if i < length v then Num (v ! i) else NaN)"

text \<open>
  The body of the loop of \<open>cosineSimilarity\<close>, on the three accumulators
  \<open>(dot, normA, normB)\<close>, and the loop over \<open>i = 0, \<dots>, a.length - 1\<close>.
\<close>

definition cos_step :: "vector \<Rightarrow> vector \<Rightarrow> jsnum \<times> jsnum \<times> jsnum \<Rightarrow> nat \<Rightarrow> jsnum \<times> jsnum \<times> jsnum" where
  "cos_step a b acc i =
     (case acc of (dot, normA, normB) \<Rightarrow>
        (js_add dot (js_mul (js_idx a i) (js_idx b i)),
         js_add normA (js_mul (js_idx a i) (js_idx a i)),
         js_add normB (js_mul (js_idx b i) (js_idx b i))))"

definition cos_sums :: "vector \<Rightarrow> vector \<Rightarrow> jsnum \<times> jsnum \<times> jsnum" where
  "cos_sums a b = foldl (cos_step a b) (Num 0, Num 0, Num 0) [0..<length a]"

text \<open>
  The \<open>return\<close> statement, \<open>dot / (Math.sqrt(normA) * Math.sqrt(normB))\<close>: the divisor
  first, then the division, which nothing guards.
\<close>

definition cos_denominator :: "vector \<Rightarrow> vector \<Rightarrow> jsnum" where
  "cos_denominator a b =
     (case cos_sums a b of (dot, normA, normB) \<Rightarrow> js_mul (js_sqrt normA) (js_sqrt normB))"

definition cosineSimilarity :: "vector \<Rightarrow> vector \<Rightarrow> jsnum" where
  "cosineSimilarity a b = js_div (fst (cos_sums a b)) (cos_denominator a b)"

subsection \<open>Values, documents and records\<close>

text \<open>
  A metadata object is \<open>Record<string, any>\<close>: a finite map from property names to
  values. A property can hold \<open>undefined\<close> (the ingestion writes \<open>year: undefined\<close> for
  a file name without a year), which is not the same object as one without the property.
\<close>

datatype jsval = JUndefined | JNull | JBool bool | JNumber jsnum | JString string

type_synonym metadata = "string \<rightharpoonup> jsval"

text \<open>The operator \<open>===\<close>: \<open>NaN\<close> is not equal to itself.\<close>

fun strict_eq :: "jsval \<Rightarrow> jsval \<Rightarrow> bool" where
  "strict_eq (JNumber a) (JNumber b) = (a \<noteq> NaN \<and> a = b)"
| "strict_eq u v = (u = v)"

text \<open>
  The property read \<open>m[key]\<close> on a metadata object, which is a plain object: its own
  property where it has one; otherwise what it inherits under that name from
  \<open>Object.prototype\<close> (a function, and for \<open>__proto__\<close> the prototype object itself:
  never a scalar, never \<open>undefined\<close>); otherwise \<open>undefined\<close>.
\<close>

definition object_prototype_names :: "string list" where
  "object_prototype_names =
     [''constructor'', ''__defineGetter__'', ''__defineSetter__'', ''hasOwnProperty'',
      ''__lookupGetter__'', ''__lookupSetter__'', ''isPrototypeOf'', ''propertyIsEnumerable'',
      ''toString'', ''valueOf'', ''__proto__'', ''toLocaleString'']"

datatype property = Value jsval | Builtin string

definition prop_get :: "metadata \<Rightarrow> string \<Rightarrow> property" where
  "prop_get m key =
     (case m key of
        Some v \<Rightarrow> Value v
      | None \<Rightarrow> if key \<in> set object_prototype_names then Builtin key else Value JUndefined)"

text \<open>
  \<open>x === val\<close> for what a read gives and a scalar \<open>val\<close>: an inherited function or
  object is strictly equal to no scalar.
\<close>

fun read_eq :: "property \<Rightarrow> jsval \<Rightarrow> bool" where
  "read_eq (Value u) val = strict_eq u val"
| "read_eq (Builtin name) val = False"

text \<open>The library's \<open>Document\<close>, and the record the store keeps for it.\<close>

record document =
  pageContent :: string
  metadata :: metadata

record vec_record =
  doc :: document
  embedding :: vector

text \<open>\<open>BerkshireDocument\<close>: the metadata is optional.\<close>

record berkshire_document =
  content :: string
  bmetadata :: "metadata option"

subsection \<open>The embedding provider, the file system, the console\<close>

datatype error = ProviderError string | SyntaxError | TypeError

text \<open>
  Modelled from the spec: the Embedding Provider (the library class \<open>OpenAIEmbeddings\<close>,
  not part of the repository). A call either fails or returns one vector per text, in
  the order of the texts; what it answers may depend on how many calls came before.
\<close>

record provider =
  documents_failure :: "nat \<Rightarrow> string list \<Rightarrow> error option"
  document_vector :: "nat \<Rightarrow> string \<Rightarrow> vector"
  query_response :: "nat \<Rightarrow> string \<Rightarrow> error + vector"

definition embedDocuments :: "provider \<Rightarrow> nat \<Rightarrow> string list \<Rightarrow> error + vector list" where
  "embedDocuments p n texts =
     (case documents_failure p n texts of
        Some err \<Rightarrow> Inl err
      | None \<Rightarrow> Inr (map (document_vector p n) texts))"

definition embedQuery :: "provider \<Rightarrow> nat \<Rightarrow> string \<Rightarrow> error + vector" where
  "embedQuery p n text = query_response p n text"

datatype provider_call = EmbedDocuments "string list" | EmbedQuery string

text \<open>
  A file is represented by what \<open>JSON.parse\<close> makes of its text: an array of records
  (\<open>Snapshot\<close>), the value \<open>null\<close> (\<open>NullText\<close>), any other JSON value that is not an
  array (\<open>OtherJson\<close>: an object, a number, a string, a boolean), or nothing when the
  text is not JSON (\<open>Unparseable\<close>). An array with an element that is not a record of
  the shape \<open>saveToFile\<close> writes is not represented. Only regular files are represented,
  and writing or deleting one does not fail.
\<close>

datatype file_content = Snapshot "vec_record list" | NullText | OtherJson | Unparseable

datatype log_entry =
    LogEmbeddedStored nat nat
  | ErrFailedBatch nat error
  | LogSaved nat string
  | LogLoaded nat string
  | LogLoadedForeign string
  | ErrFailedLoad error
  | LogAdding nat
  | LogAdded nat nat
  | ErrAdding error
  | LogQuerying string
  | LogFound nat
  | ErrQuerying error
  | LogClearing
  | LogCleared

text \<open>
  The state the operations share: the array \<open>docs\<close> of the store the facade holds, the
  files, the calls the provider has received and the lines written to the console.
\<close>

record world =
  docs :: "vec_record list"
  files :: "string \<rightharpoonup> file_content"
  calls :: "provider_call list"
  console :: "log_entry list"

definition say :: "log_entry \<Rightarrow> world \<Rightarrow> world" where
  "say l w = w\<lparr>console := console w @ [l]\<rparr>"

definition VECTORS_FILE :: string where
  "VECTORS_FILE = ''data/vectors.json''"

definition BATCH_SIZE :: nat where
  "BATCH_SIZE = 50"

subsection \<open>SimpleMemoryVectorStore\<close>

text \<open>
  The loop of \<open>addDocuments\<close> over \<open>i = 0, 50, 100, \<dots>\<close>. A failed batch is logged and
  thrown again; what the earlier batches pushed stays in \<open>docs\<close>.
\<close>

function add_batches :: "provider \<Rightarrow> document list \<Rightarrow> nat \<Rightarrow> world \<Rightarrow> (error + unit) \<times> world" where
  "add_batches p documents i w =
     (if i < length documents then
        (let batch = take BATCH_SIZE (drop i documents);
             texts = map pageContent batch;
             w1 = w\<lparr>calls := calls w @ [EmbedDocuments texts]\<rparr>
         in case embedDocuments p (length (calls w)) texts of
              Inr embeddings \<Rightarrow>
                add_batches p documents (i + BATCH_SIZE)
                  (say (LogEmbeddedStored (i + 1) (min (i + BATCH_SIZE) (length documents)))
                     (w1\<lparr>docs := docs w1 @
                        map (\<lambda>j. \<lparr>doc = batch ! j, embedding = embeddings ! j\<rparr>)
                          [0..<length batch]\<rparr>))
            | Inl err \<Rightarrow> (Inl err, say (ErrFailedBatch (i div BATCH_SIZE + 1) err) w1))
      else (Inr (), w))"
  by pat_completeness auto
termination
  by (relation "measure (\<lambda>(p, documents, i, w). length documents - i)")
     (auto simp: BATCH_SIZE_def)

definition store_addDocuments :: "provider \<Rightarrow> document list \<Rightarrow> world \<Rightarrow> (error + unit) \<times> world" where
  "store_addDocuments p documents w =
     (if length documents = 0 then (Inr (), w) else add_batches p documents 0 w)"

text \<open>
  The filter check of \<open>similaritySearch\<close>: \<open>Object.entries(filter).every(\<dots>)\<close>, the
  filter given by its entries.
\<close>

type_synonym js_filter = "(string \<times> jsval) list"

definition matches :: "js_filter \<Rightarrow> document \<Rightarrow> bool" where
  "matches flt d = list_all (\<lambda>(key, val). read_eq (prop_get (metadata d) key) val) flt"

text \<open>
  The callback of the \<open>map\<close> keeps an item (does not return \<open>null\<close>) when no filter
  is given or the filter matches; the \<open>filter\<close> that follows drops the nulls.
\<close>

definition survives :: "js_filter option \<Rightarrow> vec_record \<Rightarrow> bool" where
  "survives flt item = (case flt of None \<Rightarrow> True | Some f \<Rightarrow> matches f (doc item))"

definition scored :: "js_filter option \<Rightarrow> vector \<Rightarrow> vec_record list \<Rightarrow> (document \<times> jsnum) list" where
  "scored flt queryEmbedding items =
     List.map_filter
       (\<lambda>item.
          if \<not> survives flt item then None
          else Some (doc item, cosineSimilarity queryEmbedding (embedding item)))
       items"

text \<open>
  \<open>Array.prototype.sort\<close> with a comparator. The sort is stable; an element moves behind
  a later one only when the comparator is positive on the pair, and a comparator result
  \<open>NaN\<close> counts as zero, as the language prescribes. When the comparator is a consistent
  ordering (for the comparator of the search: when no score is \<open>NaN\<close>) this is the one
  order the language allows. When it is not, the language leaves the order to the
  implementation: the list below is then the engine's for two elements, which take a
  single comparison, and need not be for more. The properties proved of the order
  assume that no score is \<open>NaN\<close>, and the one example with such a score has two
  records.
\<close>

fun js_insert :: "('a \<Rightarrow> 'a \<Rightarrow> jsnum) \<Rightarrow> 'a \<Rightarrow> 'a list \<Rightarrow> 'a list" where
  "js_insert cmp x [] = [x]"
| "js_insert cmp x (y # ys) =
     (if js_gt (cmp x y) (Num 0) then y # js_insert cmp x ys else x # y # ys)"

definition js_sort :: "('a \<Rightarrow> 'a \<Rightarrow> jsnum) \<Rightarrow> 'a list \<Rightarrow> 'a list" where
  "js_sort cmp xs = foldr (js_insert cmp) xs []"

definition score_cmp :: "document \<times> jsnum \<Rightarrow> document \<times> jsnum \<Rightarrow> jsnum" where
  "score_cmp a b = js_sub (snd b) (snd a)"

text \<open>\<open>xs.slice(0, k)\<close> for an integer \<open>k\<close>: a negative \<open>k\<close> counts from the end.\<close>

definition js_slice0 :: "'a list \<Rightarrow> int \<Rightarrow> 'a list" where
  "js_slice0 xs k =
     (if k < 0 then take (nat (int (length xs) + k)) xs else take (nat k) xs)"

definition similaritySearch ::
  "provider \<Rightarrow> string \<Rightarrow> int \<Rightarrow> js_filter option \<Rightarrow> world \<Rightarrow> (error + document list) \<times> world" where
  "similaritySearch p query k flt w =
     (let w1 = w\<lparr>calls := calls w @ [EmbedQuery query]\<rparr>
      in case embedQuery p (length (calls w)) query of
           Inl err \<Rightarrow> (Inl err, w1)
         | Inr queryEmbedding \<Rightarrow>
             (Inr (map fst (js_slice0 (js_sort score_cmp (scored flt queryEmbedding (docs w))) k)),
              w1))"

text \<open>
  Persistence. \<open>JSON.stringify\<close> leaves out a property whose value is \<open>undefined\<close> and
  writes \<open>null\<close> for a number that is not finite; \<open>json_record\<close> is the record that
  \<open>JSON.parse\<close> gives back for the text written for a record. The directory that
  \<open>saveToFile\<close> creates when it is missing is not represented.
\<close>

fun json_value :: "jsval \<Rightarrow> jsval option" where
  "json_value JUndefined = None"
| "json_value (JNumber (Num x)) = Some (JNumber (Num x))"
| "json_value (JNumber _) = Some JNull"
| "json_value v = Some v"

definition json_metadata :: "metadata \<Rightarrow> metadata" where
  "json_metadata m = (\<lambda>key. case m key of None \<Rightarrow> None | Some v \<Rightarrow> json_value v)"

definition json_record :: "vec_record \<Rightarrow> vec_record" where
  "json_record r =
     \<lparr>doc = \<lparr>pageContent = pageContent (doc r), metadata = json_metadata (metadata (doc r))\<rparr>,
      embedding = embedding r\<rparr>"

definition saveToFile :: "string \<Rightarrow> world \<Rightarrow> world" where
  "saveToFile filePath w =
     say (LogSaved (length (docs w)) filePath)
       (w\<lparr>files := (files w)(filePath \<mapsto> Snapshot (map json_record (docs w)))\<rparr>)"

text \<open>
  \<open>loadFromFile\<close> assigns to \<open>this.docs\<close> whatever \<open>JSON.parse\<close> returns, without a check,
  and only then reads \<open>this.docs.length\<close> for the console. So a load can leave the store
  with a \<open>docs\<close> that is not an array: \<open>Clobbered v\<close> is such a state, \<open>v\<close> the value held,
  together with the files, the provider calls and the console; \<open>Intact w\<close> is a state in
  which \<open>docs\<close> is an array of records, as every other operation leaves it.
\<close>

datatype parsed = ParsedRecords "vec_record list" | ParsedNull | ParsedOther

datatype foreign = ForeignNull | ForeignOther

datatype loaded =
    Intact world
  | Clobbered foreign "string \<rightharpoonup> file_content" "provider_call list" "log_entry list"

text \<open>\<open>JSON.parse(fs.readFileSync(filePath))\<close>: a \<open>SyntaxError\<close> when the text is not JSON.\<close>

fun read_parse :: "file_content \<Rightarrow> error + parsed" where
  "read_parse (Snapshot ds) = Inr (ParsedRecords ds)"
| "read_parse NullText = Inr ParsedNull"
| "read_parse OtherJson = Inr ParsedOther"
| "read_parse Unparseable = Inl SyntaxError"

text \<open>
  The body of \<open>loadFromFile\<close>. In the \<open>try\<close> block the parsed value is assigned first;
  reading \<open>length\<close> of \<open>null\<close> then throws a \<open>TypeError\<close>, which the \<open>catch\<close> logs like the
  parser's error before \<open>false\<close> is returned; of any other value it does not throw, the
  line \<open>Loaded \<dots> vectors\<close> is written with whatever the read gave (\<open>undefined\<close> for an
  object or a number: the entry \<open>LogLoadedForeign\<close>), and \<open>true\<close> is returned.
\<close>

definition loadFromFile :: "string \<Rightarrow> world \<Rightarrow> bool \<times> loaded" where
  "loadFromFile filePath w =
     (case files w filePath of
        None \<Rightarrow> (False, Intact w)
      | Some c \<Rightarrow>
          (case read_parse c of
             Inl err \<Rightarrow> (False, Intact (say (ErrFailedLoad err) w))
           | Inr (ParsedRecords ds) \<Rightarrow>
               (True, Intact (say (LogLoaded (length ds) filePath) (w\<lparr>docs := ds\<rparr>)))
           | Inr ParsedNull \<Rightarrow>
               (False,
                Clobbered ForeignNull (files w) (calls w) (console w @ [ErrFailedLoad TypeError]))
           | Inr ParsedOther \<Rightarrow>
               (True,
                Clobbered ForeignOther (files w) (calls w) (console w @ [LogLoadedForeign filePath]))))"

subsection \<open>BerkshireVectorStore\<close>

text \<open>The constructor: a new, empty store, then the attempt to load the snapshot.\<close>

definition new_store :: "world \<Rightarrow> loaded" where
  "new_store w = snd (loadFromFile VECTORS_FILE (w\<lparr>docs := []\<rparr>))"

text \<open>
  The chunk built for the document at position \<open>idx\<close>:
  \<open>{ ...doc.metadata, chunkIndex: doc.metadata?.chunkIndex ?? idx }\<close>. The read
  \<open>doc.metadata?.chunkIndex\<close> is \<open>undefined\<close> without metadata, and otherwise the own
  property or \<open>undefined\<close>: no object inherits a property of this name.
\<close>

definition spread :: "metadata option \<Rightarrow> metadata" where
  "spread mo = (case mo of None \<Rightarrow> Map.empty | Some m \<Rightarrow> m)"

definition opt_chunkIndex :: "metadata option \<Rightarrow> jsval" where
  "opt_chunkIndex mo =
     (case mo of
        None \<Rightarrow> JUndefined
      | Some m \<Rightarrow> (case m ''chunkIndex'' of None \<Rightarrow> JUndefined | Some v \<Rightarrow> v))"

definition nullish :: "jsval \<Rightarrow> bool" where
  "nullish v = (v = JUndefined \<or> v = JNull)"

definition make_chunk :: "nat \<Rightarrow> berkshire_document \<Rightarrow> document" where
  "make_chunk idx d =
     \<lparr>pageContent = content d,
      metadata = (spread (bmetadata d))
        (''chunkIndex'' \<mapsto>
           (if nullish (opt_chunkIndex (bmetadata d)) then JNumber (Num (real idx))
            else opt_chunkIndex (bmetadata d)))\<rparr>"

definition make_chunks :: "berkshire_document list \<Rightarrow> document list" where
  "make_chunks documents = map (\<lambda>(idx, d). make_chunk idx d) (enumerate 0 documents)"

definition addDocuments :: "provider \<Rightarrow> berkshire_document list \<Rightarrow> world \<Rightarrow> (error + unit) \<times> world" where
  "addDocuments p documents w =
     (let allChunks = make_chunks documents
      in case store_addDocuments p allChunks (say (LogAdding (length documents)) w) of
           (Inr u, w1) \<Rightarrow>
             (Inr (),
              saveToFile VECTORS_FILE (say (LogAdded (length allChunks) (length documents)) w1))
         | (Inl err, w1) \<Rightarrow> (Inl err, say (ErrAdding err) w1))"

definition to_berkshire :: "document \<Rightarrow> berkshire_document" where
  "to_berkshire d = \<lparr>content = pageContent d, bmetadata = Some (metadata d)\<rparr>"

definition query ::
  "provider \<Rightarrow> string \<Rightarrow> int \<Rightarrow> js_filter option \<Rightarrow> world \<Rightarrow> (error + berkshire_document list) \<times> world" where
  "query p text topK flt w =
     (case similaritySearch p text topK flt (say (LogQuerying text) w) of
        (Inr results, w1) \<Rightarrow> (Inr (map to_berkshire results), say (LogFound (length results)) w1)
      | (Inl err, w1) \<Rightarrow> (Inl err, say (ErrQuerying err) w1))"

definition queryByYear ::
  "provider \<Rightarrow> string \<Rightarrow> jsnum \<Rightarrow> int \<Rightarrow> world \<Rightarrow> (error + berkshire_document list) \<times> world" where
  "queryByYear p text year topK w = query p text topK (Some [(''year'', JNumber year)]) w"

text \<open>
  \<open>query\<close> on the facade as a load has left it. When \<open>docs\<close> is not an array the
  embedding of the query is still requested first; then \<open>this.docs.map\<close> throws a
  \<open>TypeError\<close>, which \<open>query\<close> logs and throws again.
\<close>

definition query_loaded ::
  "provider \<Rightarrow> string \<Rightarrow> int \<Rightarrow> js_filter option \<Rightarrow> loaded \<Rightarrow> (error + berkshire_document list) \<times> loaded" where
  "query_loaded p text topK flt l =
     (case l of
        Intact w \<Rightarrow> (case query p text topK flt w of (r, w1) \<Rightarrow> (r, Intact w1))
      | Clobbered v fs cs con \<Rightarrow>
          (case embedQuery p (length cs) text of
             Inl err \<Rightarrow>
               (Inl err, Clobbered v fs (cs @ [EmbedQuery text]) (con @ [LogQuerying text, ErrQuerying err]))
           | Inr queryEmbedding \<Rightarrow>
               (Inl TypeError,
                Clobbered v fs (cs @ [EmbedQuery text]) (con @ [LogQuerying text, ErrQuerying TypeError]))))"

definition clearIndex :: "world \<Rightarrow> world" where
  "clearIndex w =
     (let w1 = (say LogClearing w)\<lparr>docs := []\<rparr>;
          w2 = (if files w1 VECTORS_FILE \<noteq> None
                then w1\<lparr>files := (files w1)(VECTORS_FILE := None)\<rparr> else w1)
      in say LogCleared w2)"

text \<open>
  \<open>clearIndex\<close> on the facade as a load has left it: the store is replaced by a new one,
  whatever \<open>docs\<close> held.
\<close>

definition clearIndex_loaded :: "loaded \<Rightarrow> world" where
  "clearIndex_loaded l =
     (case l of
        Intact w \<Rightarrow> clearIndex w
      | Clobbered v fs cs con \<Rightarrow> clearIndex \<lparr>docs = [], files = fs, calls = cs, console = con\<rparr>)"

subsection \<open>Notions of the specification\<close>

text \<open>
  The cosine similarity of the specification, \<open>dot(q, e) / (\<parallel>q\<parallel> \<sqdot> \<parallel>e\<parallel>)\<close>, in double
  arithmetic: the dot product is the sum of the products of the entries, added from
  left to right, and the norm of a vector is the square root of its dot product with
  itself.
\<close>

definition double_dot :: "vector \<Rightarrow> vector \<Rightarrow> jsnum" where
  "double_dot a b = foldl (\<lambda>acc (x, y). js_add acc (js_mul (Num x) (Num y))) (Num 0) (zip a b)"

definition double_cosine :: "vector \<Rightarrow> vector \<Rightarrow> jsnum" where
  "double_cosine a b =
     js_div (double_dot a b) (js_mul (js_sqrt (double_dot a a)) (js_sqrt (double_dot b b)))"

text \<open>
  The score of a record embedding \<open>e\<close> for the query embedding \<open>q\<close>: the cosine
  similarity of \<open>q\<close> and the first \<open>length q\<close> entries of \<open>e\<close> (all of \<open>e\<close> when the
  dimensions agree), and undefined when \<open>e\<close> is shorter than \<open>q\<close>.
\<close>

definition spec_score :: "vector \<Rightarrow> vector \<Rightarrow> jsnum" where
  "spec_score q e = (if length e < length q then NaN else double_cosine q (take (length q) e))"

definition nonzero_vector :: "vector \<Rightarrow> bool" where
  "nonzero_vector a = list_ex (\<lambda>x. x \<noteq> 0) a"

text \<open>
  The squares of all entries round to zero: each is at most \<open>2 powi (- 1075)\<close>, half the
  smallest positive double. The zero vector is such a vector, and so is a vector of
  entries of magnitude \<open>2 powi (- 600)\<close>.
\<close>

definition squares_vanish :: "vector \<Rightarrow> bool" where
  "squares_vanish v = list_all (\<lambda>x. x * x \<le> 2 powi (- 1075)) v"




fun nonneg_double :: "jsnum \<Rightarrow> bool" where
  "nonneg_double (Num y) = ((y = 0 \<or> 2 powi (- 1074) \<le> y) \<and> y < 2 ^ 1024)"
| "nonneg_double PosInf = True"
| "nonneg_double _ = False"


text \<open>
  The filter check in the words of the specification: for every pair of the filter, the
  metadata has the key, mapped to a value strictly equal to the pair's.
\<close>

definition spec_matches :: "js_filter \<Rightarrow> document \<Rightarrow> bool" where
  "spec_matches flt d =
     list_all (\<lambda>(key, val). case metadata d key of None \<Rightarrow> False | Some v \<Rightarrow> strict_eq v val) flt"

text \<open>
  The texts of batch number \<open>m\<close> (from 0) of a list of documents, and the record pushed
  for the document at position \<open>j\<close> when the first call of the run is call number \<open>c0\<close>
  of the provider: the document with the vector returned for it by the call of its batch.
\<close>

definition batch_texts :: "document list \<Rightarrow> nat \<Rightarrow> string list" where
  "batch_texts ds m = map pageContent (take BATCH_SIZE (drop (BATCH_SIZE * m) ds))"

definition embedded :: "provider \<Rightarrow> nat \<Rightarrow> document list \<Rightarrow> nat \<Rightarrow> vec_record" where
  "embedded p c0 ds j =
     \<lparr>doc = ds ! j, embedding = document_vector p (c0 + j div BATCH_SIZE) (pageContent (ds ! j))\<rparr>"

text \<open>The number of batches for \<open>n\<close> documents: \<open>n / 50\<close> rounded up.\<close>

definition batch_count :: "nat \<Rightarrow> nat" where
  "batch_count n = (n + (BATCH_SIZE - 1)) div BATCH_SIZE"

text \<open>The call the provider receives for batch \<open>m\<close>.\<close>

definition batch_call :: "document list \<Rightarrow> nat \<Rightarrow> provider_call" where
  "batch_call ds m = EmbedDocuments (batch_texts ds m)"

text \<open>What a run of the loop from batch \<open>b\<close> on leaves behind, by its result.\<close>

definition batches_outcome ::
  "provider \<Rightarrow> nat \<Rightarrow> document list \<Rightarrow> nat \<Rightarrow> world \<Rightarrow> (error + unit) \<times> world \<Rightarrow> bool" where
  "batches_outcome p c0 ds b w r =
     (case r of
        (Inr u, w') \<Rightarrow>
          (\<forall>m. b \<le> m \<and> BATCH_SIZE * m < length ds \<longrightarrow>
               documents_failure p (c0 + m) (batch_texts ds m) = None)
          \<and> docs w' = docs w @ map (embedded p c0 ds) [BATCH_SIZE * b..<length ds]
          \<and> calls w' = calls w @ map (batch_call ds) [b..<batch_count (length ds)]
          \<and> files w' = files w
      | (Inl e, w') \<Rightarrow>
          (\<exists>m. b \<le> m \<and> BATCH_SIZE * m < length ds
             \<and> documents_failure p (c0 + m) (batch_texts ds m) = Some e
             \<and> (\<forall>m'. b \<le> m' \<and> m' < m \<longrightarrow>
                    documents_failure p (c0 + m') (batch_texts ds m') = None)
             \<and> docs w' = docs w @ map (embedded p c0 ds) [BATCH_SIZE * b..<BATCH_SIZE * m]
             \<and> calls w' = calls w @ map (batch_call ds) [b..<Suc m]
             \<and> files w' = files w))"

text \<open>
  A chunk lacks an explicit \<open>chunkIndex\<close>: it has no metadata, or the metadata has no such
  key, or has it with the value \<open>undefined\<close> or \<open>null\<close> (the cases in which
  \<open>doc.metadata?.chunkIndex ?? idx\<close> is \<open>idx\<close>).
\<close>

definition lacks_chunkIndex :: "berkshire_document \<Rightarrow> bool" where
  "lacks_chunkIndex d =
     (case bmetadata d of
        None \<Rightarrow> True
      | Some m \<Rightarrow>
          (case m ''chunkIndex'' of
             None \<Rightarrow> True
           | Some v \<Rightarrow> v = JUndefined \<or> v = JNull))"

text \<open>
  The values that a JSON text carries exactly: all but \<open>undefined\<close> and the numbers that
  are not finite. A record is JSON-exact when all values of its metadata are.
\<close>

fun json_exact :: "jsval \<Rightarrow> bool" where
  "json_exact JUndefined = False"
| "json_exact (JNumber (Num x)) = True"
| "json_exact (JNumber _) = False"
| "json_exact v = True"

definition json_exact_record :: "vec_record \<Rightarrow> bool" where
  "json_exact_record r = (\<forall>v\<in>ran (metadata (doc r)). json_exact v)"

subsection \<open>Example states\<close>

text \<open>
  A provider that never fails and answers every text with the unit vector \<open>(1, 0)\<close>, and
  an index of three records, the second orthogonal to the other two.
\<close>

definition ex_provider :: provider where
  "ex_provider =
     \<lparr>documents_failure = (\<lambda>n texts. None),
      document_vector = (\<lambda>n text. [1, 0]),
      query_response = (\<lambda>n text. Inr [1, 0])\<rparr>"

definition ex_record :: "string \<Rightarrow> real \<Rightarrow> vector \<Rightarrow> vec_record" where
  "ex_record text year v =
     \<lparr>doc = \<lparr>pageContent = text, metadata = [''year'' \<mapsto> JNumber (Num year)]\<rparr>,
      embedding = v\<rparr>"

definition ex_world :: world where
  "ex_world =
     \<lparr>docs = [ex_record ''a'' 2020 [1, 0], ex_record ''b'' 2021 [0, 1], ex_record ''c'' 2020 [1, 0]],
      files = Map.empty, calls = [], console = []\<rparr>"


text \<open>
  Two doubles, powers of two: one so small that its square rounds to zero, one so large
  that its square is beyond the largest double.
\<close>

definition tiny_entry :: real where
  "tiny_entry = 1 / 2 ^ 600"

definition huge_entry :: real where
  "huge_entry = 2 ^ 600"

text \<open>A provider whose vectors are all zero.\<close>

definition zero_provider :: provider where
  "zero_provider =
     \<lparr>documents_failure = (\<lambda>n texts. None),
      document_vector = (\<lambda>n text. [0, 0]),
      query_response = (\<lambda>n text. Inr [0, 0])\<rparr>"

text \<open>An index whose only record has no \<open>year\<close>, and a filter for the year 2020.\<close>

definition ex_world_no_year :: world where
  "ex_world_no_year =
     \<lparr>docs = [\<lparr>doc = \<lparr>pageContent = ''a'', metadata = [''fileName'' \<mapsto> JString ''letter.pdf'']\<rparr>,
               embedding = [1, 0]\<rparr>],
      files = Map.empty, calls = [], console = []\<rparr>"

definition ex_filter_2020 :: js_filter where
  "ex_filter_2020 = [(''year'', JNumber (Num 2020))]"

text \<open>A list of \<open>n\<close> equal documents.\<close>

definition ex_documents :: "nat \<Rightarrow> document list" where
  "ex_documents n = replicate n \<lparr>pageContent = ''letter'', metadata = Map.empty\<rparr>"

text \<open>
  Four inputs: without metadata, with a year only, with empty metadata, and with an
  explicit \<open>chunkIndex\<close> 7 and a year.
\<close>

definition ex_inputs :: "berkshire_document list" where
  "ex_inputs =
     [\<lparr>content = ''a'', bmetadata = None\<rparr>,
      \<lparr>content = ''b'', bmetadata = Some [''year'' \<mapsto> JNumber (Num 2020)]\<rparr>,
      \<lparr>content = ''c'', bmetadata = Some Map.empty\<rparr>,
      \<lparr>content = ''d'',
       bmetadata = Some [''chunkIndex'' \<mapsto> JNumber (Num 7), ''year'' \<mapsto> JNumber (Num 2021)]\<rparr>]"

text \<open>A provider that fails on every query.\<close>

definition down_provider :: provider where
  "down_provider =
     \<lparr>documents_failure = (\<lambda>n texts. None),
      document_vector = (\<lambda>n text. [1, 0]),
      query_response = (\<lambda>n text. Inl (ProviderError ''unreachable''))\<rparr>"

text \<open>A provider whose second call fails, and sixty inputs without metadata.\<close>

definition flaky_provider :: provider where
  "flaky_provider =
     \<lparr>documents_failure = (\<lambda>n texts. if n = 1 then Some (ProviderError ''rate limit'') else None),
      document_vector = (\<lambda>n text. [1, 0]),
      query_response = (\<lambda>n text. Inr [1, 0])\<rparr>"

definition ex_sixty :: "berkshire_document list" where
  "ex_sixty = replicate 60 \<lparr>content = ''letter'', bmetadata = None\<rparr>"

text \<open>
  An index whose only record has a \<open>year\<close> that is \<open>undefined\<close> (as the ingestion writes
  for a file name without a year) and a \<open>ratio\<close> that is \<open>NaN\<close>.
\<close>

definition ex_world_lossy :: world where
  "ex_world_lossy =
     \<lparr>docs = [\<lparr>doc = \<lparr>pageContent = ''a'',
                       metadata = [''year'' \<mapsto> JUndefined, ''ratio'' \<mapsto> JNumber NaN]\<rparr>,
               embedding = [1, 0]\<rparr>],
      files = Map.empty, calls = [], console = []\<rparr>"

text \<open>A state whose snapshot file does not parse.\<close>

definition ex_world_corrupt :: world where
  "ex_world_corrupt = ex_world\<lparr>files := [VECTORS_FILE \<mapsto> Unparseable]\<rparr>"

text \<open>
  A state with the three records in memory whose snapshot file holds the text \<open>null\<close>.
\<close>

definition ex_world_null :: world where
  "ex_world_null = ex_world\<lparr>files := [VECTORS_FILE \<mapsto> NullText]\<rparr>"

text \<open>The same, with a snapshot file that holds a JSON object, such as \<open>{}\<close>.\<close>

definition ex_world_object :: world where
  "ex_world_object = ex_world\<lparr>files := [VECTORS_FILE \<mapsto> OtherJson]\<rparr>"

text \<open>The example index after a save: three records and the snapshot file.\<close>

definition ex_world_saved :: world where
  "ex_world_saved = saveToFile VECTORS_FILE ex_world"

section \<open>Properties\<close>

subsection \<open>Rounding to the nearest double\<close>

lemma log_floor_bounds:
  assumes "x \<noteq> 0"
  shows "2 powi \<lfloor>log 2 \<bar>x\<bar>\<rfloor> \<le> \<bar>x\<bar>" and "\<bar>x\<bar> < 2 powi (\<lfloor>log 2 \<bar>x\<bar>\<rfloor> + 1)"
proof -
  define L where "L = \<lfloor>log 2 \<bar>x\<bar>\<rfloor>"
  have "0 < \<bar>x\<bar>" using assms by simp
  from floor_log_eq_powr_iff[OF this, of 2 L]
  have "2 powr of_int L \<le> \<bar>x\<bar>" "\<bar>x\<bar> < 2 powr of_int (L + 1)"
    by (simp_all add: L_def)
  moreover have "(2::real) powr of_int L = 2 powi L" "(2::real) powr of_int (L + 1) = 2 powi (L + 1)"
    by (rule powr_real_of_int'; simp)+
  ultimately show "2 powi \<lfloor>log 2 \<bar>x\<bar>\<rfloor> \<le> \<bar>x\<bar>" and "\<bar>x\<bar> < 2 powi (\<lfloor>log 2 \<bar>x\<bar>\<rfloor> + 1)"
    unfolding L_def by simp_all
qed

lemma two_powi_mono: "m \<le> n \<Longrightarrow> (2::real) powi m \<le> 2 powi n"
  by (rule power_int_increasing) simp_all

lemma two_powi_pos: "0 < (2::real) powi n"
  by simp

lemma ulp_cases:
  assumes "x \<noteq> 0"
  shows "(\<bar>x\<bar> < 2 powi (- 1022) \<and> ulp_exponent x = - 1074)
       \<or> (2 powi (- 1022) \<le> \<bar>x\<bar> \<and> 2 powi (ulp_exponent x + 52) \<le> \<bar>x\<bar>
           \<and> \<bar>x\<bar> < 2 powi (ulp_exponent x + 53) \<and> - 1074 \<le> ulp_exponent x)"
proof -
  define L where "L = \<lfloor>log 2 \<bar>x\<bar>\<rfloor>"
  have b: "2 powi L \<le> \<bar>x\<bar>" "\<bar>x\<bar> < 2 powi (L + 1)"
    using log_floor_bounds[OF assms] by (simp_all add: L_def)
  have u: "ulp_exponent x = max (- 1074) (L - 52)"
    by (simp add: ulp_exponent_def L_def)
  show ?thesis
  proof (cases "L \<le> - 1023")
    case True
    then have "(2::real) powi (L + 1) \<le> 2 powi (- 1022)"
      by (intro two_powi_mono) simp
    with b(2) have "\<bar>x\<bar> < 2 powi (- 1022)" by simp
    moreover from True have "ulp_exponent x = - 1074" by (simp add: u)
    ultimately show ?thesis by blast
  next
    case False
    then have e: "ulp_exponent x = L - 52" by (simp add: u)
    from False have "(2::real) powi (- 1022) \<le> 2 powi L"
      by (intro two_powi_mono) simp
    with b(1) have "2 powi (- 1022) \<le> \<bar>x\<bar>" by simp
    moreover have "2 powi (ulp_exponent x + 52) \<le> \<bar>x\<bar>"
      using b(1) by (simp add: e)
    moreover have "\<bar>x\<bar> < 2 powi (ulp_exponent x + 53)"
    proof -
      have "ulp_exponent x + 53 = L + 1" by (simp add: e)
      with b(2) show ?thesis by (simp only:)
    qed
    moreover have "- 1074 \<le> ulp_exponent x" by (simp add: u)
    ultimately show ?thesis by blast
  qed
qed

lemma rhe_error: "\<bar>of_int (round_half_even t) - t\<bar> \<le> 1 / 2"
  unfolding round_half_even_def by (auto simp: abs_le_iff)

lemma rhe_of_int: "round_half_even (of_int n) = n"
  by (simp add: round_half_even_def)

lemma rhe_zero:
  assumes "\<bar>t\<bar> \<le> 1 / 2"
  shows "round_half_even t = 0"
proof (cases "0 \<le> t")
  case True
  with assms have "\<lfloor>t\<rfloor> = 0" by (intro floor_unique) simp_all
  with assms True show ?thesis by (simp add: round_half_even_def)
next
  case False
  with assms have "\<lfloor>t\<rfloor> = - 1" by (intro floor_unique) simp_all
  with assms False show ?thesis by (auto simp: round_half_even_def)
qed

lemma rhe_pos:
  assumes "1 / 2 < t"
  shows "1 \<le> round_half_even t"
proof -
  have "\<bar>of_int (round_half_even t) - t\<bar> \<le> 1 / 2" by (rule rhe_error)
  with assms have "(0::real) < of_int (round_half_even t)" by linarith
  then show ?thesis by simp
qed

lemma nearest_error: "\<bar>nearest x - x\<bar> \<le> 2 powi ulp_exponent x / 2"
proof -
  define E where "E = ulp_exponent x"
  define t where "t = x / 2 powi E"
  have x: "x = t * 2 powi E" by (simp add: t_def)
  have "nearest x - x = (of_int (round_half_even t) - t) * 2 powi E"
    unfolding nearest_def E_def[symmetric] t_def[symmetric] by (simp add: algebra_simps t_def)
  then have "\<bar>nearest x - x\<bar> = \<bar>of_int (round_half_even t) - t\<bar> * 2 powi E"
    by (simp add: abs_mult)
  also have "\<dots> \<le> (1 / 2) * 2 powi E"
    by (intro mult_right_mono rhe_error) simp
  finally show ?thesis by (simp add: E_def)
qed

lemma nearest_subnormal:
  assumes "x \<noteq> 0" and "\<bar>x\<bar> < 2 powi (- 1022)"
  shows "nearest x = of_int (round_half_even (x / 2 powi (- 1074))) * 2 powi (- 1074)"
proof -
  from ulp_cases[OF assms(1)] assms(2) have "ulp_exponent x = - 1074" by linarith
  then show ?thesis by (simp only: nearest_def)
qed

lemma nearest_tiny:
  assumes "\<bar>x\<bar> \<le> 2 powi (- 1075)"
  shows "nearest x = 0"
proof (cases "x = 0")
  case True
  then show ?thesis by (simp add: nearest_def rhe_zero)
next
  case False
  have "(2::real) powi (- 1075) < 2 powi (- 1022)"
    by (intro power_int_strict_increasing) simp_all
  with assms have s: "\<bar>x\<bar> < 2 powi (- 1022)" by simp
  have "\<bar>x / 2 powi (- 1074)\<bar> = \<bar>x\<bar> / 2 powi (- 1074)" by (simp add: abs_divide)
  also have "\<dots> \<le> 2 powi (- 1075) / 2 powi (- 1074)"
    using assms by (intro divide_right_mono) simp_all
  also have "\<dots> = 2 powi (- 1075 - (- 1074))"
    by (subst power_int_diff) simp_all
  also have "\<dots> = 1 / 2" by simp
  finally have "round_half_even (x / 2 powi (- 1074)) = 0" by (rule rhe_zero)
  then show ?thesis by (simp add: nearest_subnormal[OF False s])
qed

lemma nearest_normal:
  assumes "2 powi (- 1022) \<le> \<bar>x\<bar>"
  shows "\<bar>nearest x - x\<bar> \<le> \<bar>x\<bar> * 2 powi (- 53)"
proof -
  have "x \<noteq> 0" using assms two_powi_pos[of "- 1022"] by auto
  from ulp_cases[OF this] assms have b: "2 powi (ulp_exponent x + 52) \<le> \<bar>x\<bar>" by linarith
  have "(2::real) powi (ulp_exponent x + 52) * 2 powi (- 53) = 2 powi (ulp_exponent x + 52 + (- 53))"
    by (rule power_int_add[symmetric]) simp
  also have "ulp_exponent x + 52 + (- 53) = ulp_exponent x - 1" by simp
  also have "(2::real) powi (ulp_exponent x - 1) = 2 powi ulp_exponent x / 2 powi 1"
    by (rule power_int_diff) simp
  finally have "2 powi ulp_exponent x / 2 = (2::real) powi (ulp_exponent x + 52) * 2 powi (- 53)"
    by simp
  also have "\<dots> \<le> \<bar>x\<bar> * 2 powi (- 53)"
    using b by (intro mult_right_mono) simp_all
  finally show ?thesis using nearest_error[of x] by linarith
qed

lemma nearest_pos:
  assumes "2 powi (- 1075) < x"
  shows "2 powi (- 1074) \<le> nearest x"
proof -
  have x0: "x \<noteq> 0" "0 < x" using assms two_powi_pos[of "- 1075"] by auto
  define E where "E = ulp_exponent x"
  have n: "nearest x = of_int (round_half_even (x / 2 powi E)) * 2 powi E"
    by (simp add: nearest_def E_def)
  have E: "- 1074 \<le> E" by (simp add: E_def ulp_exponent_def)
  have "1 / 2 < x / 2 powi E"
  proof -
    from ulp_cases[OF x0(1)] consider "E = - 1074" | "2 powi (E + 52) \<le> \<bar>x\<bar>"
      unfolding E_def by blast
    then show ?thesis
    proof cases
      case 1
      have "(1::real) / 2 = 2 powi (- 1075) / 2 powi (- 1074)"
        by (subst power_int_diff[symmetric]) simp_all
      also have "\<dots> < x / 2 powi (- 1074)"
        using assms by (intro divide_strict_right_mono) simp_all
      finally show ?thesis by (simp add: 1)
    next
      case 2
      have "(1::real) / 2 < 2 powi 52" by simp
      also have "\<dots> = 2 powi (E + 52) / 2 powi E"
        by (subst power_int_diff[symmetric]) simp_all
      also have "\<dots> \<le> x / 2 powi E"
        using 2 x0 by (intro divide_right_mono) simp_all
      finally show ?thesis .
    qed
  qed
  then have "1 \<le> round_half_even (x / 2 powi E)" by (rule rhe_pos)
  then have "(1::real) \<le> of_int (round_half_even (x / 2 powi E))" by simp
  then have "1 * 2 powi E \<le> of_int (round_half_even (x / 2 powi E)) * (2::real) powi E"
    by (intro mult_right_mono) simp_all
  moreover have "(2::real) powi (- 1074) \<le> 2 powi E" using E by (rule two_powi_mono)
  ultimately show ?thesis unfolding n by linarith
qed

lemma ulp_exponent_minus: "ulp_exponent (- x) = ulp_exponent x"
  by (simp add: ulp_exponent_def)

lemma rhe_minus: "round_half_even (- t) = - round_half_even t"
proof (cases "t \<in> \<int>")
  case True
  then obtain n where "t = of_int n" by (auto elim: Ints_cases)
  then show ?thesis using rhe_of_int[of "- n"] rhe_of_int[of n] by simp
next
  case False
  then have "t \<noteq> of_int \<lfloor>t\<rfloor>" by (metis Ints_of_int)
  then have "\<lceil>t\<rceil> = \<lfloor>t\<rfloor> + 1" by (simp add: ceiling_altdef)
  then have f: "\<lfloor>- t\<rfloor> = - \<lfloor>t\<rfloor> - 1"
    by (simp add: floor_minus)
  have d: "- t - of_int \<lfloor>- t\<rfloor> = 1 - (t - of_int \<lfloor>t\<rfloor>)" by (simp add: f)
  show ?thesis
    unfolding round_half_even_def d unfolding f by auto
qed

lemma nearest_minus: "nearest (- x) = - nearest x"
  by (simp add: nearest_def ulp_exponent_minus rhe_minus)

lemma nearest_neg:
  assumes "x < - (2 powi (- 1075))"
  shows "nearest x \<le> - (2 powi (- 1074))"
  using nearest_pos[of "- x"] assms by (simp add: nearest_minus)


lemma nearest_exact:
  assumes x: "x = of_int m * 2 powi e" and m: "\<bar>m\<bar> < 2 ^ 53" and e: "- 1074 \<le> e"
  shows "nearest x = x"
proof (cases "x = 0")
  case True
  then show ?thesis by (simp add: nearest_def rhe_zero)
next
  case False
  define E where "E = ulp_exponent x"
  have "E \<le> e"
  proof -
    from ulp_cases[OF False] consider "E = - 1074" | "2 powi (E + 52) \<le> \<bar>x\<bar>"
      unfolding E_def by blast
    then show ?thesis
    proof cases
      case 1
      with e show ?thesis by simp
    next
      case 2
      have "\<bar>real_of_int m\<bar> < 2 ^ 53"
        using m by (metis of_int_abs of_int_less_numeral_power_cancel_iff)
      then have "\<bar>x\<bar> < 2 ^ 53 * 2 powi e"
        unfolding x abs_mult by (simp add: mult_strict_right_mono)
      also have "(2::real) ^ 53 * 2 powi e = 2 powi (53 + e)"
        by (subst power_int_add) simp_all
      finally have "(2::real) powi (E + 52) < 2 powi (53 + e)" using 2 by simp
      have "E + 52 < 53 + e"
      proof (rule ccontr)
        assume "\<not> E + 52 < 53 + e"
        then have "53 + e \<le> E + 52" by simp
        then have "(2::real) powi (53 + e) \<le> 2 powi (E + 52)" by (rule two_powi_mono)
        with \<open>(2::real) powi (E + 52) < 2 powi (53 + e)\<close> show False by simp
      qed
      then show ?thesis by simp
    qed
  qed
  then have d: "0 \<le> e - E" by simp
  have "(2::real) powi e = 2 powi (e - E) * 2 powi E"
    by (subst power_int_add[symmetric]) simp_all
  also have "(2::real) powi (e - E) = of_int (2 ^ nat (e - E))"
    using d by (simp add: power_int_def)
  finally have p: "(2::real) powi e = of_int (2 ^ nat (e - E)) * 2 powi E" .
  have "x / 2 powi E = of_int (m * 2 ^ nat (e - E))"
    unfolding x p by simp
  then have "round_half_even (x / 2 powi E) = m * 2 ^ nat (e - E)"
    by (simp only: rhe_of_int)
  then have "nearest x = of_int (m * 2 ^ nat (e - E)) * 2 powi E"
    by (simp add: nearest_def E_def)
  also have "\<dots> = x" unfolding x p by simp
  finally show ?thesis .
qed

lemma to_double_tiny: "\<bar>x\<bar> \<le> 2 powi (- 1075) \<Longrightarrow> to_double x = Num 0"
  using nearest_tiny[of x] by (simp only: to_double_def) simp

lemma to_double_pos:
  assumes "2 powi (- 1075) < x"
  shows "to_double x = PosInf \<or> (\<exists>y. to_double x = Num y \<and> 2 powi (- 1074) \<le> y)"
proof -
  have "0 < x" using assms two_powi_pos[of "- 1075"] by linarith
  with nearest_pos[OF assms] show ?thesis
    by (simp only: to_double_def inf_signed_def) auto
qed

lemma to_double_neg:
  assumes "x < - (2 powi (- 1075))"
  shows "to_double x = NegInf \<or> (\<exists>y. to_double x = Num y \<and> y \<le> - (2 powi (- 1074)))"
proof -
  have "x < 0" using assms two_powi_pos[of "- 1075"] by linarith
  with nearest_neg[OF assms] show ?thesis
    by (simp only: to_double_def inf_signed_def) auto
qed


lemma to_double_normal:
  assumes "2 powi (- 1022) \<le> \<bar>x\<bar>" and "\<bar>x\<bar> \<le> 2 powi 1023"
  shows "\<exists>y. to_double x = Num y \<and> \<bar>y - x\<bar> \<le> \<bar>x\<bar> * 2 powi (- 53)"
proof -
  have x0: "x \<noteq> 0" using assms two_powi_pos[of "- 1022"] by auto
  have err: "\<bar>nearest x - x\<bar> \<le> \<bar>x\<bar> * 2 powi (- 53)"
    using assms(1) by (rule nearest_normal)
  have "\<bar>x\<bar> * 2 powi (- 53) \<le> 2 powi 1023 * 2 powi (- 53)"
    using assms(2) by (intro mult_right_mono) simp_all
  also have "\<dots> = 2 powi (1023 + (- 53))"
    by (rule power_int_add[symmetric]) simp
  also have "\<dots> < 2 powi 1023"
    by (intro power_int_strict_increasing) simp_all
  finally have "\<bar>nearest x\<bar> < 2 powi 1023 + 2 powi 1023"
    using err assms(2) by linarith
  also have "(2::real) powi 1023 + 2 powi 1023 = 2 ^ 1024" by simp
  finally have "\<not> 2 ^ 1024 \<le> \<bar>nearest x\<bar>" by simp
  with x0 have "to_double x = Num (nearest x)" by (simp only: to_double_def if_False)
  with err show ?thesis by blast
qed

lemma to_double_exact:
  assumes "x = of_int m * 2 powi e" and "\<bar>m\<bar> < 2 ^ 53" and "- 1074 \<le> e" and "\<bar>x\<bar> < 2 ^ 1024"
  shows "to_double x = Num x"
  using nearest_exact[OF assms(1-3)] assms(4) by (simp only: to_double_def) simp

lemma to_double_of_int: "\<bar>m\<bar> < 2 ^ 53 \<Longrightarrow> to_double (of_int m) = Num (of_int m)"
proof -
  assume m: "\<bar>m\<bar> < 2 ^ 53"
  then have "\<bar>real_of_int m\<bar> < 2 ^ 53"
    by (metis of_int_abs of_int_less_numeral_power_cancel_iff)
  also have "(2::real) ^ 53 < 2 ^ 1024" by simp
  finally have "\<bar>real_of_int m\<bar> < 2 ^ 1024" .
  then show ?thesis
    using m by (intro to_double_exact[of _ m 0]) simp_all
qed

lemma to_double_numeral [simp]:
  "(numeral k :: int) < 2 ^ 53 \<Longrightarrow> to_double (numeral k) = Num (numeral k)"
  "(numeral k :: int) < 2 ^ 53 \<Longrightarrow> to_double (- numeral k) = Num (- numeral k)"
  "to_double 0 = Num 0" "to_double 1 = Num 1" "to_double (- 1) = Num (- 1)"
  using to_double_of_int[of "numeral k"] to_double_of_int[of "- numeral k"]
    to_double_of_int[of 1] to_double_of_int[of "- 1"]
  by (simp_all add: to_double_def)

lemma to_double_zero_iff: "to_double x = Num 0 \<longleftrightarrow> \<bar>x\<bar> \<le> 2 powi (- 1075)"
proof
  assume z: "to_double x = Num 0"
  show "\<bar>x\<bar> \<le> 2 powi (- 1075)"
  proof (rule ccontr)
    assume "\<not> \<bar>x\<bar> \<le> 2 powi (- 1075)"
    then consider "2 powi (- 1075) < x" | "x < - (2 powi (- 1075))" by linarith
    then show False
    proof cases
      case 1
      from to_double_pos[OF 1] z two_powi_pos[of "- 1074"] show False by auto
    next
      case 2
      from to_double_neg[OF 2] z two_powi_pos[of "- 1074"] show False by auto
    qed
  qed
qed (rule to_double_tiny)

lemma to_double_bound: "to_double x = Num y \<Longrightarrow> \<bar>y\<bar> < 2 ^ 1024"
  by (cases "x = 0") (auto simp: to_double_def inf_signed_def split: if_splits)

lemma rhe_ge_floor: "\<lfloor>t\<rfloor> \<le> round_half_even t"
  by (simp add: round_half_even_def)

lemma to_double_overflow:
  assumes "2 powi 1024 \<le> x"
  shows "to_double x = PosInf"
proof -
  have x0: "x \<noteq> 0" "0 < x" using assms two_powi_pos[of 1024] by auto
  define E where "E = ulp_exponent x"
  have "(2::real) powi (- 1022) \<le> 2 powi 1024" by (rule two_powi_mono) simp
  with assms x0 have "\<not> \<bar>x\<bar> < 2 powi (- 1022)" by simp
  with ulp_cases[OF x0(1)] have b: "2 powi (E + 52) \<le> \<bar>x\<bar>" "\<bar>x\<bar> < 2 powi (E + 53)"
    unfolding E_def by blast+
  have "1024 < E + 53"
  proof (rule ccontr)
    assume "\<not> 1024 < E + 53"
    then have "(2::real) powi (E + 53) \<le> 2 powi 1024" by (intro two_powi_mono) simp
    with b(2) assms x0 show False by simp
  qed
  then have E: "1024 \<le> E + 52" by simp
  have "(2::real) powi 52 = 2 powi (E + 52) / 2 powi E"
    by (subst power_int_diff[symmetric]) simp_all
  also have "\<dots> \<le> x / 2 powi E"
    using b(1) x0 by (intro divide_right_mono) simp_all
  finally have "(2::real) powi 52 \<le> x / 2 powi E" .
  moreover have "(2::real) powi 52 = of_int (2 ^ 52)" by simp
  ultimately have "(2 ^ 52 :: int) \<le> \<lfloor>x / 2 powi E\<rfloor>" by (simp only: le_floor_iff)
  with rhe_ge_floor[of "x / 2 powi E"] have "(2 ^ 52 :: int) \<le> round_half_even (x / 2 powi E)"
    by linarith
  then have "real_of_int (2 ^ 52) \<le> of_int (round_half_even (x / 2 powi E))"
    by (simp only: of_int_le_iff)
  then have "real_of_int (2 ^ 52) * 2 powi E \<le> of_int (round_half_even (x / 2 powi E)) * 2 powi E"
    by (intro mult_right_mono) simp_all
  moreover have "real_of_int (2 ^ 52) * 2 powi E = 2 powi (52 + E)"
    by (subst power_int_add) simp_all
  moreover have "(2::real) powi 1024 \<le> 2 powi (52 + E)" using E by (intro two_powi_mono) simp
  ultimately have "2 powi 1024 \<le> nearest x" unfolding nearest_def E_def by linarith
  moreover have "(2::real) powi 1024 = 2 ^ 1024" by simp
  ultimately have "2 ^ 1024 \<le> \<bar>nearest x\<bar>" by linarith
  with x0 show ?thesis by (simp only: to_double_def inf_signed_def) simp
qed

subsection \<open>Arithmetic on doubles\<close>






subsection \<open>The loop of the cosine similarity in closed form\<close>

lemma double_dot_snoc:
  "length a = length b \<Longrightarrow>
   double_dot (a @ [x]) (b @ [y]) = js_add (double_dot a b) (js_mul (Num x) (Num y))"
  by (simp add: double_dot_def)

lemma double_dot_Nil [simp]: "double_dot [] b = Num 0" "double_dot a [] = Num 0"
  by (simp_all add: double_dot_def)

lemma zip_take_right: "zip a (take (length a) b) = zip a b"
  by (induction a b rule: list_induct2') simp_all

lemma double_dot_take: "double_dot a (take (length a) b) = double_dot a b"
  by (simp add: double_dot_def zip_take_right)

lemma cos_fold_take:
  "n \<le> length a \<Longrightarrow> n \<le> length b \<Longrightarrow>
   foldl (cos_step a b) (Num 0, Num 0, Num 0) [0..<n] =
     (double_dot (take n a) (take n b), double_dot (take n a) (take n a),
      double_dot (take n b) (take n b))"
proof (induction n)
  case 0
  then show ?case by simp
next
  case (Suc n)
  then have n: "n < length a" "n < length b" by simp_all
  then have t: "take (Suc n) a = take n a @ [a ! n]" "take (Suc n) b = take n b @ [b ! n]"
    by (simp_all add: take_Suc_conv_app_nth)
  have l: "length (take n a) = length (take n b)" using n by simp
  show ?case
    unfolding t using Suc n l
    by (simp add: double_dot_snoc cos_step_def js_idx_def)
qed

lemma cos_sums_eq:
  assumes "length a \<le> length b"
  shows "cos_sums a b =
     (double_dot a b, double_dot a a,
      double_dot (take (length a) b) (take (length a) b))"
  using cos_fold_take[of "length a" a b] assms by (simp add: cos_sums_def double_dot_take)

lemma cos_fold_nan:
  "foldl (cos_step a b) (NaN, x, NaN) ns = (NaN, snd (foldl (cos_step a b) (NaN, x, NaN) ns))
   \<and> snd (snd (foldl (cos_step a b) (NaN, x, NaN) ns)) = NaN"
  by (induction ns arbitrary: x) (simp_all add: cos_step_def)

lemma js_add_nan [simp]: "js_add x NaN = NaN"
  by (cases x) simp_all

lemma js_mul_nan [simp]: "js_mul x NaN = NaN"
  by (cases x) simp_all

lemma js_div_nan [simp]: "js_div x NaN = NaN"
  by (cases x) simp_all

lemma cos_sums_short:
  assumes "length b < length a"
  shows "fst (cos_sums a b) = NaN" and "snd (snd (cos_sums a b)) = NaN"
proof -
  have split: "[0..<length a] = [0..<length b] @ length b # [Suc (length b)..<length a]"
    using assms by (metis less_imp_le_nat upt_add_eq_append le_add_diff_inverse upt_conv_Cons zero_le)
  obtain d x y where pre: "foldl (cos_step a b) (Num 0, Num 0, Num 0) [0..<length b] = (d, x, y)"
    by (metis prod_cases3)
  have "\<exists>x'. cos_step a b (d, x, y) (length b) = (NaN, x', NaN)"
    by (simp add: cos_step_def js_idx_def)
  then obtain x' where "cos_step a b (d, x, y) (length b) = (NaN, x', NaN)" by blast
  then have "cos_sums a b = foldl (cos_step a b) (NaN, x', NaN) [Suc (length b)..<length a]"
    by (simp add: cos_sums_def split pre)
  with cos_fold_nan[of a b x' "[Suc (length b)..<length a]"]
  show "fst (cos_sums a b) = NaN" and "snd (snd (cos_sums a b)) = NaN"
    by (metis fst_conv, simp)
qed

lemma cosine_short:
  assumes "length b < length a"
  shows "cosineSimilarity a b = NaN" and "cos_denominator a b = NaN"
  using cos_sums_short[OF assms]
  by (cases "cos_sums a b"; simp add: cosineSimilarity_def cos_denominator_def)+

lemma cosineSimilarity_spec: "cosineSimilarity q e = spec_score q e"
proof (cases "length e < length q")
  case True
  then show ?thesis by (simp add: cosine_short spec_score_def)
next
  case False
  then have "length q \<le> length e" by simp
  from cos_sums_eq[OF this] False show ?thesis
    by (simp add: cosineSimilarity_def cos_denominator_def spec_score_def double_cosine_def
        double_dot_take)
qed

subsection \<open>Sums of squares and the denominator\<close>

lemma nonneg_double_cases:
  assumes "nonneg_double d"
  obtains "d = Num 0" | y where "d = Num y" "2 powi (- 1074) \<le> y" "y < 2 ^ 1024" | "d = PosInf"
  using assms by (cases d) auto

lemma nonneg_to_double:
  assumes "0 \<le> x"
  shows "nonneg_double (to_double x)" and "to_double x = Num 0 \<longleftrightarrow> x \<le> 2 powi (- 1075)"
proof -
  show "to_double x = Num 0 \<longleftrightarrow> x \<le> 2 powi (- 1075)"
    using assms by (simp only: to_double_zero_iff abs_of_nonneg)
  show "nonneg_double (to_double x)"
  proof (cases "2 powi (- 1075) < x")
    case True
    from to_double_pos[OF True] show ?thesis
    proof
      assume "to_double x = PosInf" then show ?thesis by simp
    next
      assume "\<exists>y. to_double x = Num y \<and> 2 powi (- 1074) \<le> y"
      then obtain y where y: "to_double x = Num y" "2 powi (- 1074) \<le> y" by blast
      from to_double_bound[OF y(1)] have "y < 2 ^ 1024" by linarith
      with y show ?thesis by (simp only: nonneg_double.simps) simp
    qed
  next
    case False
    with assms have "\<bar>x\<bar> \<le> 2 powi (- 1075)" by simp
    then have "to_double x = Num 0" by (rule to_double_tiny)
    then show ?thesis by simp
  qed
qed

lemma sum_below_half_ulp:
  fixes x y g h :: real
  assumes "x = 0 \<or> g \<le> x" and "y = 0 \<or> g \<le> y" and "0 < h" and "h < g"
  shows "x + y \<le> h \<longleftrightarrow> x = 0 \<and> y = 0"
  using assms by auto

lemma nonneg_add:
  assumes "nonneg_double a" and "nonneg_double b"
  shows "nonneg_double (js_add a b)" and "js_add a b = Num 0 \<longleftrightarrow> a = Num 0 \<and> b = Num 0"
proof -
  have p: "(0::real) < 2 powi (- 1074)" by (rule two_powi_pos)
  have q: "(2::real) powi (- 1075) < 2 powi (- 1074)"
    by (intro power_int_strict_increasing) simp_all
  have "nonneg_double (js_add a b) \<and> (js_add a b = Num 0 \<longleftrightarrow> a = Num 0 \<and> b = Num 0)"
  proof (cases a; cases b)
    fix x y assume ab: "a = Num x" "b = Num y"
    with assms have x: "x = 0 \<or> 2 powi (- 1074) \<le> x" and y: "y = 0 \<or> 2 powi (- 1074) \<le> y"
      by (simp_all only: nonneg_double.simps)
    from x y p have s: "0 \<le> x + y" by linarith
    have "x + y \<le> 2 powi (- 1075) \<longleftrightarrow> x = 0 \<and> y = 0"
      using x y two_powi_pos[of "- 1075"] q by (rule sum_below_half_ulp)
    with nonneg_to_double[OF s] show ?thesis by (simp add: ab)
  qed (use assms in simp_all)
  then show "nonneg_double (js_add a b)" and "js_add a b = Num 0 \<longleftrightarrow> a = Num 0 \<and> b = Num 0"
    by blast+
qed

lemma nonneg_square:
  "nonneg_double (js_mul (Num x) (Num x))"
  "js_mul (Num x) (Num x) = Num 0 \<longleftrightarrow> x * x \<le> 2 powi (- 1075)"
  using nonneg_to_double[of "x * x"] by simp_all

lemma nonneg_zero: "nonneg_double (Num 0)"
  by simp

lemma sum_of_squares:
  "nonneg_double (double_dot v v) \<and> (double_dot v v = Num 0 \<longleftrightarrow> squares_vanish v)"
proof (induction v rule: rev_induct)
  case Nil
  then show ?case by (simp add: squares_vanish_def)
next
  case (snoc x v)
  have d: "double_dot (v @ [x]) (v @ [x]) = js_add (double_dot v v) (js_mul (Num x) (Num x))"
    by (rule double_dot_snoc) simp
  from snoc have n: "nonneg_double (double_dot v v)" by blast
  from nonneg_add[OF n nonneg_square(1)[of x]] snoc nonneg_square(2)[of x]
  show ?case unfolding d by (simp only: squares_vanish_def list_all_append) simp
qed

lemma sqrt_two_powi: "sqrt (2 powi (2 * n)) = 2 powi n"
proof -
  have "(2::real) powi (2 * n) = (2 powi n)\<^sup>2"
    by (simp add: power2_eq_square power_int_add[symmetric])
  then show ?thesis by simp
qed

text \<open>The root of a positive double is a double, at least three quarters of \<open>2 powi (- 537)\<close>.\<close>

lemma sqrt_positive:
  assumes "2 powi (- 1074) \<le> y" and "y < 2 ^ 1024"
  shows "\<exists>s. js_sqrt (Num y) = Num s \<and> 3 / 4 * 2 powi (- 537) \<le> s"
proof -
  have y0: "0 \<le> y" using assms(1) two_powi_pos[of "- 1074"] by linarith
  have "sqrt (2 powi (2 * (- 537))) \<le> sqrt y"
    using assms(1) by (intro real_sqrt_le_mono) simp
  then have lo: "2 powi (- 537) \<le> sqrt y" by (simp only: sqrt_two_powi)
  have "y \<le> 2 powi (2 * 512)" using assms(2) by simp
  then have "sqrt y \<le> sqrt (2 powi (2 * 512))" by (rule real_sqrt_le_mono)
  then have "sqrt y \<le> 2 powi 512" by (simp only: sqrt_two_powi)
  also have "(2::real) powi 512 \<le> 2 powi 1023" by (rule two_powi_mono) simp
  finally have hi: "\<bar>sqrt y\<bar> \<le> 2 powi 1023" using y0 by simp
  have "(2::real) powi (- 1022) \<le> 2 powi (- 537)" by (rule two_powi_mono) simp
  with lo have "2 powi (- 1022) \<le> \<bar>sqrt y\<bar>" by linarith
  from to_double_normal[OF this hi] obtain s where
    s: "to_double (sqrt y) = Num s" "\<bar>s - sqrt y\<bar> \<le> \<bar>sqrt y\<bar> * 2 powi (- 53)" by blast
  have "(2::real) powi (- 53) \<le> 2 powi (- 2)" by (rule two_powi_mono) simp
  then have "(2::real) powi (- 53) \<le> 1 / 4" by simp
  then have "\<bar>sqrt y\<bar> * 2 powi (- 53) \<le> \<bar>sqrt y\<bar> * (1 / 4)"
    by (intro mult_left_mono) simp_all
  moreover have "\<bar>sqrt y\<bar> = sqrt y" using y0 by simp
  ultimately have "3 / 4 * sqrt y \<le> s" using s(2) by linarith
  with lo have "3 / 4 * 2 powi (- 537) \<le> s" by linarith
  with s(1) y0 show ?thesis by (simp add: not_less)
qed

lemma product_positive:
  fixes s t :: real
  assumes "3 / 4 * 2 powi (- 537) \<le> s" and "3 / 4 * 2 powi (- 537) \<le> t"
  shows "2 powi (- 1075) < s * t"
proof -
  have p: "(0::real) < 2 powi (- 537)" by (rule two_powi_pos)
  have "(3 / 4 * 2 powi (- 537)) * (3 / 4 * 2 powi (- 537)) \<le> s * t"
    using assms p by (intro mult_mono) simp_all
  moreover have "(3 / 4 * 2 powi (- 537)) * (3 / 4 * (2::real) powi (- 537)) =
      9 / 16 * (2 powi (- 537) * 2 powi (- 537))" by (simp only: algebra_simps)
  moreover have "(2::real) powi (- 537) * 2 powi (- 537) = 2 powi (- 537 + - 537)"
    by (rule power_int_add[symmetric]) simp
  moreover have "(2::real) powi (- 537 + - 537) = 2 * 2 powi (- 1075)"
  proof -
    have "(2::real) powi (- 1075 + 1) = 2 powi (- 1075) * 2"
      by (rule power_int_add_1) simp
    then show ?thesis by simp
  qed
  ultimately have "9 / 8 * 2 powi (- 1075) \<le> s * t" by (simp only:)
  with two_powi_pos[of "- 1075"] show ?thesis by linarith
qed

text \<open>The denominator, from the two sums of squares.\<close>

lemma sqrt_nonneg_cases:
  assumes "nonneg_double d"
  obtains "d = Num 0" "js_sqrt d = Num 0"
  | s where "d \<noteq> Num 0" "d \<noteq> PosInf" "js_sqrt d = Num s" "3 / 4 * 2 powi (- 537) \<le> s" "0 < s"
  | "d = PosInf" "js_sqrt d = PosInf"
  using assms
proof (cases rule: nonneg_double_cases)
  case 1
  then show ?thesis using that(1) by simp
next
  case (2 y)
  from sqrt_positive[OF 2(2,3)] obtain s where s: "js_sqrt (Num y) = Num s" "3 / 4 * 2 powi (- 537) \<le> s"
    by blast
  have "y \<noteq> 0" using 2(2) two_powi_pos[of "- 1074"] by auto
  moreover have "0 < s" using s(2) two_powi_pos[of "- 537"] by linarith
  ultimately show ?thesis using that(2)[of s] 2(1) s by simp
next
  case 3
  then show ?thesis using that(3) by simp
qed

lemma product_cases:
  fixes s t :: real
  assumes "3 / 4 * 2 powi (- 537) \<le> s" and "3 / 4 * 2 powi (- 537) \<le> t"
  shows "js_mul (Num s) (Num t) = PosInf \<or> (\<exists>d. js_mul (Num s) (Num t) = Num d \<and> 0 < d)"
proof -
  from to_double_pos[OF product_positive[OF assms]] two_powi_pos[of "- 1074"]
  show ?thesis by (simp only: js_mul.simps) (metis less_le_trans)
qed

lemma denominator_cases:
  assumes "nonneg_double nA" and "nonneg_double nB"
  shows "js_mul (js_sqrt nA) (js_sqrt nB) = Num 0 \<longleftrightarrow>
           (nA = Num 0 \<and> nB \<noteq> PosInf) \<or> (nB = Num 0 \<and> nA \<noteq> PosInf)"
    and "nA \<noteq> Num 0 \<Longrightarrow> nB \<noteq> Num 0 \<Longrightarrow>
           js_mul (js_sqrt nA) (js_sqrt nB) = PosInf
           \<or> (\<exists>d. js_mul (js_sqrt nA) (js_sqrt nB) = Num d \<and> 0 < d)"
    and "nA = Num 0 \<Longrightarrow> js_mul (js_sqrt nA) (js_sqrt nB) = Num 0 \<or> js_mul (js_sqrt nA) (js_sqrt nB) = NaN"
proof -
  have "(js_mul (js_sqrt nA) (js_sqrt nB) = Num 0 \<longleftrightarrow>
           (nA = Num 0 \<and> nB \<noteq> PosInf) \<or> (nB = Num 0 \<and> nA \<noteq> PosInf))
      \<and> (nA \<noteq> Num 0 \<and> nB \<noteq> Num 0 \<longrightarrow>
           js_mul (js_sqrt nA) (js_sqrt nB) = PosInf
           \<or> (\<exists>d. js_mul (js_sqrt nA) (js_sqrt nB) = Num d \<and> 0 < d))
      \<and> (nA = Num 0 \<longrightarrow> js_mul (js_sqrt nA) (js_sqrt nB) = Num 0 \<or> js_mul (js_sqrt nA) (js_sqrt nB) = NaN)"
    using assms(1)
  proof (cases rule: sqrt_nonneg_cases)
    case 1
    from assms(2) show ?thesis
      by (cases rule: sqrt_nonneg_cases) (simp_all add: 1)
  next
    case (2 s)
    from assms(2) show ?thesis
    proof (cases rule: sqrt_nonneg_cases)
      case 1
      with \<open>nA \<noteq> Num 0\<close> \<open>nA \<noteq> PosInf\<close> \<open>js_sqrt nA = Num s\<close> show ?thesis by simp
    next
      case (2 t)
      from product_cases[OF \<open>3 / 4 * 2 powi (- 537) \<le> s\<close> 2(4)]
      have "js_mul (Num s) (Num t) = PosInf \<or> (\<exists>d. js_mul (Num s) (Num t) = Num d \<and> 0 < d)" .
      moreover from this have "js_mul (Num s) (Num t) \<noteq> Num 0" by auto
      ultimately show ?thesis
        using \<open>nA \<noteq> Num 0\<close> \<open>js_sqrt nA = Num s\<close> 2(1,3) by (simp only:) simp
    next
      case 3
      with \<open>nA \<noteq> Num 0\<close> \<open>js_sqrt nA = Num s\<close> \<open>0 < s\<close> show ?thesis
        by (simp add: inf_signed_def)
    qed
  next
    case 3
    from assms(2) show ?thesis
      by (cases rule: sqrt_nonneg_cases) (simp_all add: 3 inf_signed_def)
  qed
  then show "js_mul (js_sqrt nA) (js_sqrt nB) = Num 0 \<longleftrightarrow>
           (nA = Num 0 \<and> nB \<noteq> PosInf) \<or> (nB = Num 0 \<and> nA \<noteq> PosInf)"
    and "nA \<noteq> Num 0 \<Longrightarrow> nB \<noteq> Num 0 \<Longrightarrow>
           js_mul (js_sqrt nA) (js_sqrt nB) = PosInf
           \<or> (\<exists>d. js_mul (js_sqrt nA) (js_sqrt nB) = Num d \<and> 0 < d)"
    and "nA = Num 0 \<Longrightarrow> js_mul (js_sqrt nA) (js_sqrt nB) = Num 0 \<or> js_mul (js_sqrt nA) (js_sqrt nB) = NaN"
    by blast+
qed

text \<open>A quotient by a zero denominator is not a number.\<close>

lemma js_div_zero: "js_div x (Num 0) = NaN \<or> js_div x (Num 0) = PosInf \<or> js_div x (Num 0) = NegInf"
  by (cases x) (simp_all add: inf_signed_def)


subsection \<open>The score of a vector with itself\<close>







lemma zero_dot:
  "\<forall>x\<in>set a. x = 0 \<Longrightarrow> double_dot a b = Num 0"
proof (induction a b rule: list_induct2')
  case (4 x xs y ys)
  then have "double_dot xs ys = Num 0" by simp
  with 4(2) show ?case by (simp add: double_dot_def)
qed simp_all

lemma cosine_zero_query:
  assumes "\<not> nonzero_vector a"
  shows "cosineSimilarity a b = NaN"
proof (cases "length a \<le> length b")
  case True
  have z: "\<forall>x\<in>set a. x = 0" using assms by (simp add: nonzero_vector_def list_ex_iff)
  have s: "cos_sums a b = (Num 0, Num 0, double_dot (take (length a) b) (take (length a) b))"
    using cos_sums_eq[OF True] zero_dot[OF z] by simp
  have n: "nonneg_double (double_dot (take (length a) b) (take (length a) b))"
    using sum_of_squares by blast
  from denominator_cases(3)[OF nonneg_zero n]
  have "cos_denominator a b = Num 0 \<or> cos_denominator a b = NaN"
    by (simp add: cos_denominator_def s)
  then show ?thesis by (auto simp: cosineSimilarity_def s)
next
  case False
  then show ?thesis by (simp add: cosine_short)
qed

subsection \<open>Sums of squares of entries of moderate size\<close>













subsection \<open>The sort is a stable sort by descending score\<close>



lemma mset_js_insert: "mset (js_insert cmp x ys) = add_mset x (mset ys)"
  by (induction ys) simp_all


lemma mset_js_sort: "mset (js_sort cmp xs) = mset xs"
  by (induction xs) (simp_all add: js_sort_def mset_js_insert)


lemma length_js_sort: "length (js_sort cmp xs) = length xs"
  using mset_js_sort[of cmp xs] by (rule mset_eq_length)






subsection \<open>The search pipeline in terms of positions in the index\<close>






subsection \<open>Ranked retrieval\<close>

lemma calls_say [simp]: "calls (say l w) = calls w"
  and docs_say [simp]: "docs (say l w) = docs w"
  and files_say [simp]: "files (say l w) = files w"
  and console_say [simp]: "console (say l w) = console w @ [l]"
  by (simp_all add: say_def)

lemmas cos_eval = cosineSimilarity_spec spec_score_def double_cosine_def double_dot_def

lemma ex_scores:
  "cosineSimilarity [1, 0] [1, 0] = Num 1" "cosineSimilarity [1, 0] [0, 1] = Num 0"
  "cosineSimilarity [1, 0] [0, 0] = NaN"
  by (simp_all add: cos_eval)




subsection \<open>The score\<close>

lemma scored_survivors:
  "scored flt q items =
     map (\<lambda>r. (doc r, cosineSimilarity q (embedding r))) (filter (survives flt) items)"
  by (induction items) (simp_all add: scored_def List.map_filter_simps)

lemma query_no_error:
  "embedQuery p (length (calls w)) text = Inr q \<Longrightarrow> \<exists>chunks. fst (query p text k flt w) = Inr chunks"
  by (simp add: query_def similaritySearch_def)

lemma tiny_square [simp]: "to_double (tiny_entry * tiny_entry) = Num 0"
  by (rule to_double_tiny) (simp add: tiny_entry_def)

lemma tiny_nonzero [simp]: "tiny_entry \<noteq> 0"
  by (simp add: tiny_entry_def)

lemma huge_square [simp]: "to_double (huge_entry * huge_entry) = PosInf"
  by (rule to_double_overflow) (simp add: huge_entry_def)

lemma huge_nonzero [simp]: "huge_entry \<noteq> 0"
  by (simp add: huge_entry_def)

lemma zero_squares_vanish:
  assumes "\<forall>x\<in>set a. x = 0"
  shows "squares_vanish a"
  unfolding squares_vanish_def list_all_iff
proof
  fix x assume "x \<in> set a"
  with assms have "x * x = 0" by simp
  with two_powi_pos[of "- 1075"] show "x * x \<le> 2 powi (- 1075)" by linarith
qed






text \<open>
  The claim C10 as it is stated fails for these vectors, none of which is the zero
  vector: the denominator is zero, and the score \<open>NaN\<close>, for the vector with the one
  entry \<open>2\<^sup>-\<^sup>6\<^sup>0\<^sup>0\<close> and itself, whose squares round to zero; and for the query \<open>(1)\<close> and
  the longer record \<open>(0, 1)\<close>, of which the loop reads the first entry only.
\<close>

theorem denominator_counterexample:
  "nonzero_vector [tiny_entry] \<and> cos_denominator [tiny_entry] [tiny_entry] = Num 0
   \<and> cosineSimilarity [tiny_entry] [tiny_entry] = NaN
   \<and> nonzero_vector [1] \<and> nonzero_vector [0, 1]
   \<and> cos_denominator [1] [0, 1] = Num 0 \<and> cosineSimilarity [1] [0, 1] = NaN"
  by (simp add: nonzero_vector_def cosineSimilarity_def cos_denominator_def cos_sums_def
      cos_step_def js_idx_def)

text \<open>
  Claim C10, as the code has it. The division of \<open>cosineSimilarity\<close> has no guard: the
  score is the quotient of the computed dot product by the denominator whatever the
  denominator is, and with the denominator zero it is \<open>NaN\<close> or an infinity, not an
  error. When the record is at least as long as the query, the denominator is zero
  exactly when the squares of the query, or of the entries of the record that the loop
  reads, all round to zero (and the other sum of squares has not overflowed); the zero
  vector is one such vector. When neither is such a vector, the denominator is a
  positive number or \<open>+\<infinity>\<close>. When the record is shorter than the query, denominator and
  score are \<open>NaN\<close>. A zero query embedding gives every record the score \<open>NaN\<close>, and the
  query still returns a list, not an error.
\<close>

theorem cosineSimilarity_unguarded_division:
  "cosineSimilarity a b = js_div (fst (cos_sums a b)) (cos_denominator a b)
   \<and> (cos_denominator a b = Num 0 \<longrightarrow>
        cosineSimilarity a b = NaN \<or> cosineSimilarity a b = PosInf \<or> cosineSimilarity a b = NegInf)
   \<and> (length a \<le> length b \<longrightarrow>
        (cos_denominator a b = Num 0 \<longleftrightarrow>
           (squares_vanish a \<and> double_dot (take (length a) b) (take (length a) b) \<noteq> PosInf)
           \<or> (squares_vanish (take (length a) b) \<and> double_dot a a \<noteq> PosInf))
        \<and> (\<not> squares_vanish a \<and> \<not> squares_vanish (take (length a) b) \<longrightarrow>
             cos_denominator a b = PosInf \<or> (\<exists>d. cos_denominator a b = Num d \<and> 0 < d)))
   \<and> (length b < length a \<longrightarrow> cos_denominator a b = NaN \<and> cosineSimilarity a b = NaN)
   \<and> (\<not> nonzero_vector a \<longrightarrow> squares_vanish a \<and> cosineSimilarity a b = NaN)
   \<and> (embedQuery p (length (calls w)) text = Inr q \<and> \<not> nonzero_vector q \<longrightarrow>
        (\<exists>chunks. fst (query p text k flt w) = Inr chunks)
        \<and> scored flt q (docs w) = map (\<lambda>r. (doc r, NaN)) (filter (survives flt) (docs w)))"
proof -
  let ?b = "take (length a) b"
  have c1: "cosineSimilarity a b = NaN \<or> cosineSimilarity a b = PosInf \<or> cosineSimilarity a b = NegInf"
    if "cos_denominator a b = Num 0"
    using js_div_zero[of "fst (cos_sums a b)"] that by (simp add: cosineSimilarity_def)
  have n: "nonneg_double (double_dot a a)" "nonneg_double (double_dot ?b ?b)"
    using sum_of_squares by blast+
  have z: "double_dot a a = Num 0 \<longleftrightarrow> squares_vanish a"
    "double_dot ?b ?b = Num 0 \<longleftrightarrow> squares_vanish ?b"
    using sum_of_squares by blast+
  have c2: "cos_denominator a b = Num 0 \<longleftrightarrow>
           (squares_vanish a \<and> double_dot ?b ?b \<noteq> PosInf)
           \<or> (squares_vanish ?b \<and> double_dot a a \<noteq> PosInf)"
    if "length a \<le> length b"
    using denominator_cases(1)[OF n] by (simp add: cos_denominator_def cos_sums_eq[OF that] z)
  have c3: "cos_denominator a b = PosInf \<or> (\<exists>d. cos_denominator a b = Num d \<and> 0 < d)"
    if "length a \<le> length b" "\<not> squares_vanish a" "\<not> squares_vanish ?b"
    using denominator_cases(2)[OF n] that(2,3)
    by (simp add: cos_denominator_def cos_sums_eq[OF that(1)] z)
  have c4: "cos_denominator a b = NaN \<and> cosineSimilarity a b = NaN" if "length b < length a"
    using cosine_short[OF that] by simp
  have c5: "squares_vanish a \<and> cosineSimilarity a b = NaN" if "\<not> nonzero_vector a"
  proof -
    from that have "\<forall>x\<in>set a. x = 0" by (simp add: nonzero_vector_def list_ex_iff)
    then have "squares_vanish a" by (rule zero_squares_vanish)
    with cosine_zero_query[OF that] show ?thesis by simp
  qed
  have c6: "(\<exists>chunks. fst (query p text k flt w) = Inr chunks)
        \<and> scored flt q (docs w) = map (\<lambda>r. (doc r, NaN)) (filter (survives flt) (docs w))"
    if "embedQuery p (length (calls w)) text = Inr q" "\<not> nonzero_vector q"
    using query_no_error[OF that(1)] that(2) by (simp add: scored_survivors cosine_zero_query)
  from c1 c2 c3 c4 c5 c6 show ?thesis
    by (simp add: cosineSimilarity_def)
qed

theorem cosineSimilarity_unguarded_division_witness:
  "cos_denominator [0, 0] [0, 1] = Num 0
   \<and> squares_vanish [0, 0] \<and> double_dot [0, 1] [0, 1] = Num 1
   \<and> cosineSimilarity [0, 0] [0, 1] = NaN
   \<and> \<not> squares_vanish [1, 0] \<and> \<not> squares_vanish [0, 1]
   \<and> cos_denominator [1, 0] [0, 1] = Num 1
   \<and> cos_denominator [1, 0] [0] = NaN \<and> cosineSimilarity [1, 0] [0] = NaN
   \<and> embedQuery zero_provider (length (calls ex_world)) ''moat'' = Inr [0, 0]
   \<and> (\<exists>chunks. fst (query zero_provider ''moat'' 2 None ex_world) = Inr chunks)
   \<and> scored None [0, 0] (docs ex_world) = map (\<lambda>r. (doc r, NaN)) (docs ex_world)"
proof -
  have n: "\<not> nonzero_vector [0, 0]"
    by (simp add: nonzero_vector_def)
  have p: "(2::real) powi (- 1075) < 1"
    using power_int_strict_increasing[of "- 1075" 0 "2::real"] by simp
  have v: "\<not> squares_vanish [1, 0]" "\<not> squares_vanish [0, 1]"
    unfolding squares_vanish_def using p by simp_all
  have d: "double_dot [0, 1] [0, 1] = Num 1"
    by (simp add: double_dot_def)
  have e: "embedQuery zero_provider (length (calls ex_world)) ''moat'' = Inr [0, 0]"
    by (simp add: embedQuery_def zero_provider_def)
  have s: "filter (survives None) (docs ex_world) = docs ex_world"
    by (simp add: survives_def)
  have c: "cos_denominator [1, 0] [0, 1] = Num 1"
    by (simp add: cos_denominator_def cos_sums_def cos_step_def js_idx_def)
  note T1 = cosineSimilarity_unguarded_division[of "[0, 0]" "[0, 1]" zero_provider ex_world "''moat''" "[0, 0]" 2 None]
  note T2 = cosineSimilarity_unguarded_division[of "[1, 0]" "[0]" zero_provider ex_world "''moat''" "[0, 0]" 2 None]
  from T1 n have a1: "squares_vanish [0, 0]" "cosineSimilarity [0, 0] [0, 1] = NaN" by blast+
  from T1 a1(1) d have a2: "cos_denominator [0, 0] [0, 1] = Num 0" by simp
  from T2 have a3: "cos_denominator [1, 0] [0] = NaN" "cosineSimilarity [1, 0] [0] = NaN" by simp_all
  from T1 e n have a4: "\<exists>chunks. fst (query zero_provider ''moat'' 2 None ex_world) = Inr chunks"
    "scored None [0, 0] (docs ex_world) = map (\<lambda>r. (doc r, NaN)) (filter (survives None) (docs ex_world))"
    by blast+
  from a1 a2 a3 a4 v d e c show ?thesis unfolding s by blast
qed

subsection \<open>Metadata filtering\<close>

lemma matches_iff:
  "matches f d \<longleftrightarrow> (\<forall>(key, val)\<in>set f. read_eq (prop_get (metadata d) key) val)"
  by (simp add: matches_def list_all_iff)

lemma spec_matches_iff:
  "spec_matches f d \<longleftrightarrow> (\<forall>(key, val)\<in>set f. \<exists>v. metadata d key = Some v \<and> strict_eq v val)"
  by (auto simp: spec_matches_def list_all_iff split: option.splits)

lemma strict_eq_undefined_left: "strict_eq JUndefined val \<longleftrightarrow> val = JUndefined"
  by (cases val) auto

lemma read_eq_defined:
  "val \<noteq> JUndefined \<Longrightarrow>
   read_eq (prop_get m key) val \<longleftrightarrow> (\<exists>v. m key = Some v \<and> strict_eq v val)"
  by (cases "m key") (simp_all add: prop_get_def strict_eq_undefined_left)

lemma matches_missing_key:
  assumes "(key, val) \<in> set f" and "val \<noteq> JUndefined" and "metadata d key = None"
  shows "\<not> matches f d"
proof
  assume "matches f d"
  with assms(1) have "read_eq (prop_get (metadata d) key) val"
    unfolding matches_iff by blast
  with assms(2,3) show False
    by (simp add: read_eq_defined)
qed

lemma matches_eq_spec:
  assumes "\<forall>(key, val)\<in>set f. val \<noteq> JUndefined"
  shows "matches f d \<longleftrightarrow> spec_matches f d"
proof -
  have "read_eq (prop_get (metadata d) key) val \<longleftrightarrow>
      (\<exists>v. metadata d key = Some v \<and> strict_eq v val)" if "(key, val) \<in> set f" for key val
    using that assms by (intro read_eq_defined) blast
  then show ?thesis
    unfolding matches_iff spec_matches_iff by blast
qed

text \<open>
  The read of a property that a record does not have when the filter's value is
  \<open>undefined\<close>, which the filter type of the specification (a scalar for each key)
  leaves out: for a name such as \<open>year\<close> the read gives \<open>undefined\<close> and the pair
  passes; for a name that every object inherits, such as \<open>toString\<close>, it does not.
\<close>

lemma matches_undefined_value:
  "metadata d ''year'' = None \<Longrightarrow> matches [(''year'', JUndefined)] d"
  "metadata d ''toString'' = None \<Longrightarrow> \<not> matches [(''toString'', val)] d"
  by (simp_all add: matches_def prop_get_def object_prototype_names_def)

lemma query_all_survivors:
  assumes "embedQuery p (length (calls w)) text = Inr q" and "int (length (docs w)) \<le> k"
  shows "\<exists>chunks. fst (query p text k flt w) = Inr chunks
      \<and> mset chunks = image_mset (\<lambda>r. to_berkshire (doc r)) (filter_mset (survives flt) (mset (docs w)))"
proof -
  let ?S = "js_sort score_cmp (scored flt q (docs w))"
  have "length ?S \<le> length (docs w)"
    by (simp add: length_js_sort scored_survivors)
  then have "js_slice0 ?S k = ?S"
    using assms(2) by (simp add: js_slice0_def)
  then have "fst (similaritySearch p text k flt (say (LogQuerying text) w)) = Inr (map fst ?S)"
    using assms(1) by (simp add: similaritySearch_def)
  then have "fst (query p text k flt w) = Inr (map to_berkshire (map fst ?S))"
    by (cases "similaritySearch p text k flt (say (LogQuerying text) w)") (simp add: query_def)
  moreover have "mset (map to_berkshire (map fst ?S)) =
      image_mset (\<lambda>r. to_berkshire (doc r)) (filter_mset (survives flt) (mset (docs w)))"
  proof -
    have "mset (map to_berkshire (map fst ?S)) =
        image_mset (\<lambda>x. to_berkshire (fst x)) (mset ?S)"
      by (simp add: comp_def)
    also have "mset ?S = mset (scored flt q (docs w))"
      by (rule mset_js_sort)
    also have "image_mset (\<lambda>x. to_berkshire (fst x)) (mset (scored flt q (docs w))) =
        mset (map (\<lambda>r. to_berkshire (doc r)) (filter (survives flt) (docs w)))"
      by (simp add: scored_survivors multiset.map_comp comp_def)
    finally show ?thesis by simp
  qed
  ultimately show ?thesis by blast
qed

text \<open>
  Claim C3. A filter gives a scalar for each of its keys, so none of its values is
  \<open>undefined\<close>. A record survives such a filter if and only if, for every pair
  \<open>(key, val)\<close> of the filter, its metadata has the key, mapped to a value strictly equal
  to \<open>val\<close>; in particular a record that misses a key of the filter is excluded. Without
  a filter every record survives. The survivors are what a query returns when \<open>k\<close> does
  not cut the list: the chunks of the records that match the filter, or of all records
  when there is no filter.
\<close>

theorem filter_keeps_exactly_the_matching_records:
  assumes "\<forall>(key, val)\<in>set f. val \<noteq> JUndefined"
  shows "(survives (Some f) r \<longleftrightarrow> spec_matches f (doc r))
   \<and> (survives (Some f) r \<longleftrightarrow>
        (\<forall>(key, val)\<in>set f. \<exists>v. metadata (doc r) key = Some v \<and> strict_eq v val))
   \<and> ((key, val) \<in> set f \<and> metadata (doc r) key = None \<longrightarrow> \<not> survives (Some f) r)
   \<and> survives None r
   \<and> (embedQuery p (length (calls w)) text = Inr q \<and> int (length (docs w)) \<le> k \<longrightarrow>
        (\<exists>chunks. fst (query p text k (Some f) w) = Inr chunks
           \<and> mset chunks =
               image_mset (\<lambda>r. to_berkshire (doc r))
                 (filter_mset (\<lambda>r. spec_matches f (doc r)) (mset (docs w))))
        \<and> (\<exists>chunks. fst (query p text k None w) = Inr chunks
           \<and> mset chunks = image_mset (\<lambda>r. to_berkshire (doc r)) (mset (docs w))))"
proof -
  have a: "survives (Some f) r \<longleftrightarrow> spec_matches f (doc r)" for r
    using assms by (simp add: survives_def matches_eq_spec)
  have b: "\<not> survives (Some f) r" if "(key, val) \<in> set f" "metadata (doc r) key = None"
  proof -
    from that(1) assms have "val \<noteq> JUndefined" by blast
    with that show ?thesis by (simp add: survives_def matches_missing_key)
  qed
  have c: "survives None r" by (simp add: survives_def)
  have d: "filter_mset (survives (Some f)) (mset (docs w)) =
      filter_mset (\<lambda>r. spec_matches f (doc r)) (mset (docs w))"
    by (rule filter_mset_cong) (simp_all add: a)
  have "survives None = (\<lambda>r. True)"
    by (simp add: fun_eq_iff survives_def)
  then have e: "filter_mset (survives None) (mset (docs w)) = mset (docs w)"
    by simp
  have g: "(\<exists>chunks. fst (query p text k (Some f) w) = Inr chunks
           \<and> mset chunks =
               image_mset (\<lambda>r. to_berkshire (doc r))
                 (filter_mset (\<lambda>r. spec_matches f (doc r)) (mset (docs w))))
        \<and> (\<exists>chunks. fst (query p text k None w) = Inr chunks
           \<and> mset chunks = image_mset (\<lambda>r. to_berkshire (doc r)) (mset (docs w)))"
    if "embedQuery p (length (calls w)) text = Inr q" "int (length (docs w)) \<le> k"
    using query_all_survivors[OF that, of "Some f"] query_all_survivors[OF that, of None]
    unfolding d e by blast
  from a[of r] b c g show ?thesis
    unfolding spec_matches_iff by blast
qed

theorem filter_keeps_exactly_the_matching_records_witness:
  "list_all (\<lambda>(key, val). val \<noteq> JUndefined) ex_filter_2020
   \<and> (''year'', JNumber (Num 2020)) \<in> set ex_filter_2020
   \<and> metadata (doc (hd (docs ex_world_no_year))) ''year'' = None
   \<and> \<not> survives (Some ex_filter_2020) (hd (docs ex_world_no_year))
   \<and> \<not> spec_matches ex_filter_2020 (doc (hd (docs ex_world_no_year)))
   \<and> embedQuery ex_provider (length (calls ex_world)) ''moat'' = Inr [1, 0]
   \<and> int (length (docs ex_world)) \<le> 5
   \<and> (\<exists>chunks. fst (query ex_provider ''moat'' 5 (Some ex_filter_2020) ex_world) = Inr chunks
        \<and> mset chunks =
            image_mset (\<lambda>r. to_berkshire (doc r))
              (filter_mset (\<lambda>r. spec_matches ex_filter_2020 (doc r)) (mset (docs ex_world))))
   \<and> size (filter_mset (\<lambda>r. spec_matches ex_filter_2020 (doc r)) (mset (docs ex_world))) = 2
   \<and> fst (queryByYear ex_provider ''moat'' (Num 2020) 5 ex_world) =
       Inr [to_berkshire (doc (ex_record ''a'' 2020 [1, 0])),
            to_berkshire (doc (ex_record ''c'' 2020 [1, 0]))]"
proof -
  have a: "(''year'', JNumber (Num 2020)) \<in> set ex_filter_2020"
    and c: "metadata (doc (hd (docs ex_world_no_year))) ''year'' = None"
    and d: "\<forall>(key, val)\<in>set ex_filter_2020. val \<noteq> JUndefined"
    by (simp_all add: ex_filter_2020_def ex_world_no_year_def)
  have e: "embedQuery ex_provider (length (calls ex_world)) ''moat'' = Inr [1, 0]"
    and l: "int (length (docs ex_world)) \<le> 5"
    by (simp_all add: embedQuery_def ex_provider_def ex_world_def)
  have z: "size (filter_mset (\<lambda>r. spec_matches ex_filter_2020 (doc r)) (mset (docs ex_world))) = 2"
    by (simp add: ex_world_def ex_record_def ex_filter_2020_def spec_matches_def)
  have v: "fst (queryByYear ex_provider ''moat'' (Num 2020) 5 ex_world) =
       Inr [to_berkshire (doc (ex_record ''a'' 2020 [1, 0])),
            to_berkshire (doc (ex_record ''c'' 2020 [1, 0]))]"
    by (simp add: queryByYear_def query_def similaritySearch_def embedQuery_def ex_provider_def
        ex_world_def scored_def List.map_filter_simps survives_def matches_def prop_get_def
        ex_record_def ex_scores js_sort_def score_cmp_def js_sub_def js_slice0_def)
  note T = filter_keeps_exactly_the_matching_records[OF d, of "hd (docs ex_world_no_year)"
      "''year''" "JNumber (Num 2020)" ex_provider ex_world "''moat''" "[1, 0]" 5]
  from T a c have n: "\<not> survives (Some ex_filter_2020) (hd (docs ex_world_no_year))"
    by blast
  from T n have m: "\<not> spec_matches ex_filter_2020 (doc (hd (docs ex_world_no_year)))"
    by blast
  from T e l have q: "\<exists>chunks. fst (query ex_provider ''moat'' 5 (Some ex_filter_2020) ex_world) = Inr chunks
        \<and> mset chunks =
            image_mset (\<lambda>r. to_berkshire (doc r))
              (filter_mset (\<lambda>r. spec_matches ex_filter_2020 (doc r)) (mset (docs ex_world)))"
    by blast
  from d have d': "list_all (\<lambda>(key, val). val \<noteq> JUndefined) ex_filter_2020"
    by (simp add: list_all_iff)
  from d' a c n m e l q z v show ?thesis by blast
qed

subsection \<open>The batches of addDocuments\<close>

declare add_batches.simps [simp del]

lemma batch_records:
  assumes "i < length ds"
  shows "map (\<lambda>j. \<lparr>doc = take BATCH_SIZE (drop i ds) ! j,
                    embedding = map (document_vector p c) (map pageContent (take BATCH_SIZE (drop i ds))) ! j\<rparr>)
           [0..<length (take BATCH_SIZE (drop i ds))] =
         map (\<lambda>j. \<lparr>doc = ds ! j, embedding = document_vector p c (pageContent (ds ! j))\<rparr>)
           [i..<min (i + BATCH_SIZE) (length ds)]"
proof (rule nth_equalityI)
  show "length (map (\<lambda>j. \<lparr>doc = take BATCH_SIZE (drop i ds) ! j,
                    embedding = map (document_vector p c) (map pageContent (take BATCH_SIZE (drop i ds))) ! j\<rparr>)
           [0..<length (take BATCH_SIZE (drop i ds))]) =
        length (map (\<lambda>j. \<lparr>doc = ds ! j, embedding = document_vector p c (pageContent (ds ! j))\<rparr>)
           [i..<min (i + BATCH_SIZE) (length ds)])"
    using assms by simp
next
  fix j
  assume "j < length (map (\<lambda>j. \<lparr>doc = take BATCH_SIZE (drop i ds) ! j,
                    embedding = map (document_vector p c) (map pageContent (take BATCH_SIZE (drop i ds))) ! j\<rparr>)
           [0..<length (take BATCH_SIZE (drop i ds))])"
  then have j: "j < BATCH_SIZE" "i + j < length ds" "j < length ds - i"
    "j < min (length ds - i) BATCH_SIZE" "i + j < min (i + BATCH_SIZE) (length ds)"
    by auto
  then show "map (\<lambda>j. \<lparr>doc = take BATCH_SIZE (drop i ds) ! j,
                    embedding = map (document_vector p c) (map pageContent (take BATCH_SIZE (drop i ds))) ! j\<rparr>)
           [0..<length (take BATCH_SIZE (drop i ds))] ! j =
         map (\<lambda>j. \<lparr>doc = ds ! j, embedding = document_vector p c (pageContent (ds ! j))\<rparr>)
           [i..<min (i + BATCH_SIZE) (length ds)] ! j"
    by simp
qed

lemma batch_div:
  assumes "BATCH_SIZE dvd i" and "j \<in> set [i..<min (i + BATCH_SIZE) n]"
  shows "j div BATCH_SIZE = i div BATCH_SIZE"
proof -
  from assms(1) obtain b where b: "i = BATCH_SIZE * b" by (auto simp: dvd_def)
  from assms(2) have "BATCH_SIZE * b \<le> j" "j < BATCH_SIZE * b + BATCH_SIZE" by (simp_all add: b)
  then have "j div BATCH_SIZE = b"
    by (intro div_nat_eqI) simp_all
  then show ?thesis by (simp add: b BATCH_SIZE_def)
qed

lemma batch_embedded:
  assumes "i < length ds" and "BATCH_SIZE dvd i"
  shows "map (\<lambda>j. \<lparr>doc = take BATCH_SIZE (drop i ds) ! j,
                    embedding = map (document_vector p (c0 + i div BATCH_SIZE))
                       (map pageContent (take BATCH_SIZE (drop i ds))) ! j\<rparr>)
           [0..<length (take BATCH_SIZE (drop i ds))] =
         map (embedded p c0 ds) [i..<min (i + BATCH_SIZE) (length ds)]"
proof -
  have "map (\<lambda>j. \<lparr>doc = ds ! j,
                  embedding = document_vector p (c0 + i div BATCH_SIZE) (pageContent (ds ! j))\<rparr>)
          [i..<min (i + BATCH_SIZE) (length ds)] =
        map (embedded p c0 ds) [i..<min (i + BATCH_SIZE) (length ds)]"
  proof (rule map_cong[OF refl])
    fix j assume "j \<in> set [i..<min (i + BATCH_SIZE) (length ds)]"
    from batch_div[OF assms(2) this] show "\<lparr>doc = ds ! j,
        embedding = document_vector p (c0 + i div BATCH_SIZE) (pageContent (ds ! j))\<rparr> =
        embedded p c0 ds j"
      by (simp add: embedded_def)
  qed
  with batch_records[OF assms(1), of p "c0 + i div BATCH_SIZE"] show ?thesis by simp
qed

lemma add_batches_done: "\<not> i < length ds \<Longrightarrow> add_batches p ds i w = (Inr (), w)"
  by (simp add: add_batches.simps)

lemma add_batches_step:
  assumes "i < length ds" and "i = BATCH_SIZE * b" and "length (calls w) = c0 + b"
  shows "add_batches p ds i w =
     (case documents_failure p (c0 + b) (batch_texts ds b) of
        Some e \<Rightarrow>
          (Inl e, say (ErrFailedBatch (i div BATCH_SIZE + 1) e)
                    (w\<lparr>calls := calls w @ [batch_call ds b]\<rparr>))
      | None \<Rightarrow>
          add_batches p ds (i + BATCH_SIZE)
            (say (LogEmbeddedStored (i + 1) (min (i + BATCH_SIZE) (length ds)))
               (w\<lparr>calls := calls w @ [batch_call ds b],
                  docs := docs w @ map (embedded p c0 ds) [i..<min (i + BATCH_SIZE) (length ds)]\<rparr>)))"
proof -
  define batch where "batch = take BATCH_SIZE (drop i ds)"
  have d: "BATCH_SIZE dvd i" "i div BATCH_SIZE = b"
    using assms(2) by (simp_all add: BATCH_SIZE_def)
  have texts: "map pageContent batch = batch_texts ds b"
    by (simp add: batch_def batch_texts_def assms(2))
  have e: "map (\<lambda>j. \<lparr>doc = batch ! j,
                    embedding = map (document_vector p (c0 + b)) (batch_texts ds b) ! j\<rparr>)
           [0..<length batch] =
         map (embedded p c0 ds) [i..<min (i + BATCH_SIZE) (length ds)]"
    using batch_embedded[OF assms(1) d(1), of p c0]
    unfolding d(2) batch_def[symmetric] texts .
  have unfold: "add_batches p ds i w =
     (case embedDocuments p (length (calls w)) (map pageContent batch) of
        Inr embeddings \<Rightarrow>
          add_batches p ds (i + BATCH_SIZE)
            (say (LogEmbeddedStored (i + 1) (min (i + BATCH_SIZE) (length ds)))
               (w\<lparr>calls := calls w @ [EmbedDocuments (map pageContent batch)],
                  docs := docs w @
                    map (\<lambda>j. \<lparr>doc = batch ! j, embedding = embeddings ! j\<rparr>) [0..<length batch]\<rparr>))
      | Inl err \<Rightarrow>
          (Inl err, say (ErrFailedBatch (i div BATCH_SIZE + 1) err)
             (w\<lparr>calls := calls w @ [EmbedDocuments (map pageContent batch)]\<rparr>)))"
    by (subst add_batches.simps) (simp add: assms(1) Let_def batch_def cong: sum.case_cong)
  show ?thesis
  proof (cases "documents_failure p (c0 + b) (batch_texts ds b)")
    case None
    then show ?thesis
      unfolding unfold texts assms(3) embedDocuments_def batch_call_def by (simp add: e)
  next
    case (Some err)
    then show ?thesis
      unfolding unfold texts assms(3) embedDocuments_def batch_call_def by simp
  qed
qed

lemma batch_count_le: "n \<le> BATCH_SIZE * b \<Longrightarrow> batch_count n \<le> b"
  by (simp add: batch_count_def BATCH_SIZE_def)

lemma batch_count_gt: "BATCH_SIZE * b < n \<Longrightarrow> b < batch_count n"
  by (simp add: batch_count_def BATCH_SIZE_def)

lemma upt_join: "i \<le> j \<Longrightarrow> j \<le> k \<Longrightarrow> [i..<j] @ [j..<k] = [i..<k]"
  using upt_add_eq_append[of i j "k - j"] by simp

lemma upt_min_join_all: "i \<le> j \<Longrightarrow> [i..<min j n] @ [j..<n] = [i..<n]"
  by (cases "j \<le> n") (simp_all add: upt_join min_def)

lemma upt_min_join_some: "i \<le> j \<Longrightarrow> j \<le> k \<Longrightarrow> k \<le> n \<Longrightarrow> [i..<min j n] @ [j..<k] = [i..<k]"
  by (simp add: upt_join min_def)

lemma batch_next: "BATCH_SIZE * b + BATCH_SIZE = BATCH_SIZE * Suc b"
  by simp

lemma upt_batch_all:
  "[BATCH_SIZE * b..<min (BATCH_SIZE * b + BATCH_SIZE) n] @ [BATCH_SIZE * Suc b..<n] =
     [BATCH_SIZE * b..<n]"
  unfolding batch_next by (rule upt_min_join_all) simp

lemma upt_batch_some:
  assumes "Suc b \<le> m" and "BATCH_SIZE * m < n"
  shows "[BATCH_SIZE * b..<min (BATCH_SIZE * b + BATCH_SIZE) n] @
      [BATCH_SIZE * Suc b..<BATCH_SIZE * m] = [BATCH_SIZE * b..<BATCH_SIZE * m]"
  unfolding batch_next
proof (rule upt_min_join_some)
  show "BATCH_SIZE * b \<le> BATCH_SIZE * Suc b" by simp
  show "BATCH_SIZE * Suc b \<le> BATCH_SIZE * m" using assms(1) by (rule mult_le_mono2)
  show "BATCH_SIZE * m \<le> n" using assms(2) by simp
qed

lemma add_batches_outcome:
  assumes "length (calls w) = c0 + b"
  shows "batches_outcome p c0 ds b w (add_batches p ds (BATCH_SIZE * b) w)"
  using assms
proof (induction "length ds - BATCH_SIZE * b" arbitrary: b w rule: less_induct)
  case less
  show ?case
  proof (cases "BATCH_SIZE * b < length ds")
    case False
    have r: "add_batches p ds (BATCH_SIZE * b) w = (Inr (), w)"
      by (rule add_batches_done[OF False])
    have e1: "[BATCH_SIZE * b..<length ds] = []" using False by simp
    have "batch_count (length ds) \<le> b"
      using False by (intro batch_count_le) simp
    then have e2: "[b..<batch_count (length ds)] = []" by simp
    have "\<not> BATCH_SIZE * m < length ds" if "b \<le> m" for m
      using False that by (simp add: BATCH_SIZE_def)
    then have e3: "\<forall>m. b \<le> m \<and> BATCH_SIZE * m < length ds \<longrightarrow>
               documents_failure p (c0 + m) (batch_texts ds m) = None"
      by blast
    show ?thesis
      unfolding r batches_outcome_def prod.case sum.case e1 e2 using e3 by simp
  next
    case True
    note step = add_batches_step[OF True refl less.prems, of p]
    show ?thesis
    proof (cases "documents_failure p (c0 + b) (batch_texts ds b)")
      case (Some e)
      have "batches_outcome p c0 ds b w
          (Inl e, say (ErrFailedBatch (BATCH_SIZE * b div BATCH_SIZE + 1) e)
                    (w\<lparr>calls := calls w @ [batch_call ds b]\<rparr>))"
        unfolding batches_outcome_def using True Some
        by (auto intro!: exI[of _ b])
      then show ?thesis by (simp add: step Some)
    next
      case None
      define w2 where "w2 = say (LogEmbeddedStored (BATCH_SIZE * b + 1)
               (min (BATCH_SIZE * b + BATCH_SIZE) (length ds)))
               (w\<lparr>calls := calls w @ [batch_call ds b],
                  docs := docs w @ map (embedded p c0 ds)
                     [BATCH_SIZE * b..<min (BATCH_SIZE * b + BATCH_SIZE) (length ds)]\<rparr>)"
      have eq: "add_batches p ds (BATCH_SIZE * b) w = add_batches p ds (BATCH_SIZE * Suc b) w2"
        by (simp only: step None w2_def option.case mult_Suc_right add.commute[of BATCH_SIZE])
      have w2: "length (calls w2) = c0 + Suc b" "files w2 = files w"
        "calls w2 = calls w @ [batch_call ds b]"
        "docs w2 = docs w @ map (embedded p c0 ds)
                     [BATCH_SIZE * b..<min (BATCH_SIZE * b + BATCH_SIZE) (length ds)]"
        using less.prems by (simp_all add: w2_def)
      have "length ds - BATCH_SIZE * Suc b < length ds - BATCH_SIZE * b"
        using True by (simp add: BATCH_SIZE_def)
      from less.hyps[OF this w2(1)]
      have IH: "batches_outcome p c0 ds (Suc b) w2 (add_batches p ds (BATCH_SIZE * Suc b) w2)" .
      obtain r w' where r: "add_batches p ds (BATCH_SIZE * Suc b) w2 = (r, w')"
        by (cases "add_batches p ds (BATCH_SIZE * Suc b) w2")
      have bc: "b < batch_count (length ds)" using True by (rule batch_count_gt)
      have none: "documents_failure p (c0 + m) (batch_texts ds m) = None"
        if "b \<le> m" "m < k"
          "\<forall>m. Suc b \<le> m \<and> m < k \<longrightarrow> documents_failure p (c0 + m) (batch_texts ds m) = None"
        for m k
        using that None by (cases "m = b") auto
      show ?thesis
      proof (cases r)
        case (Inr u)
        with IH r have a: "\<forall>m. Suc b \<le> m \<and> BATCH_SIZE * m < length ds \<longrightarrow>
               documents_failure p (c0 + m) (batch_texts ds m) = None"
          and d: "docs w' = docs w2 @ map (embedded p c0 ds) [BATCH_SIZE * Suc b..<length ds]"
          and c: "calls w' = calls w2 @ map (batch_call ds) [Suc b..<batch_count (length ds)]"
          and f: "files w' = files w2"
          by (simp_all add: batches_outcome_def)
        have a': "\<forall>m. b \<le> m \<and> BATCH_SIZE * m < length ds \<longrightarrow>
               documents_failure p (c0 + m) (batch_texts ds m) = None"
        proof (intro allI impI)
          fix m assume m: "b \<le> m \<and> BATCH_SIZE * m < length ds"
          show "documents_failure p (c0 + m) (batch_texts ds m) = None"
            using m a None by (cases "m = b") auto
        qed
        have d': "docs w' = docs w @ map (embedded p c0 ds) [BATCH_SIZE * b..<length ds]"
          unfolding d w2(4) append_assoc map_append[symmetric] upt_batch_all ..
        have c': "calls w' = calls w @ map (batch_call ds) [b..<batch_count (length ds)]"
          by (simp add: c w2(3) upt_conv_Cons[OF bc])
        show ?thesis
          unfolding eq r Inr batches_outcome_def using a' d' c' f w2(2) by simp
      next
        case (Inl e)
        with IH r obtain m where m: "Suc b \<le> m" "BATCH_SIZE * m < length ds"
          "documents_failure p (c0 + m) (batch_texts ds m) = Some e"
          and a: "\<forall>m'. Suc b \<le> m' \<and> m' < m \<longrightarrow>
                    documents_failure p (c0 + m') (batch_texts ds m') = None"
          and d: "docs w' = docs w2 @ map (embedded p c0 ds) [BATCH_SIZE * Suc b..<BATCH_SIZE * m]"
          and c: "calls w' = calls w2 @ map (batch_call ds) [Suc b..<Suc m]"
          and f: "files w' = files w2"
          by (auto simp: batches_outcome_def)
        have a': "\<forall>m'. b \<le> m' \<and> m' < m \<longrightarrow>
                    documents_failure p (c0 + m') (batch_texts ds m') = None"
        proof (intro allI impI)
          fix m' assume "b \<le> m' \<and> m' < m"
          then show "documents_failure p (c0 + m') (batch_texts ds m') = None"
            using a None by (cases "m' = b") auto
        qed
        have d': "docs w' = docs w @ map (embedded p c0 ds) [BATCH_SIZE * b..<BATCH_SIZE * m]"
          unfolding d w2(4) append_assoc map_append[symmetric] upt_batch_some[OF m(1,2)] ..
        have "b < Suc m" using m(1) by simp
        then have c': "calls w' = calls w @ map (batch_call ds) [b..<Suc m]"
          by (simp add: c w2(3) upt_conv_Cons[of b "Suc m"] del: upt_Suc)
        have "b \<le> m" using m(1) by simp
        then show ?thesis
          unfolding eq r Inl batches_outcome_def using m(2,3) a' d' c' f w2(2)
          by (auto intro!: exI[of _ m])
      qed
    qed
  qed
qed

subsection \<open>Batch boundaries\<close>

lemma store_addDocuments_outcome:
  "batches_outcome p (length (calls w)) ds 0 w (store_addDocuments p ds w)"
proof (cases "length ds = 0")
  case True
  then show ?thesis
    by (simp add: store_addDocuments_def batches_outcome_def batch_count_def BATCH_SIZE_def)
next
  case False
  have "batches_outcome p (length (calls w)) ds 0 w (add_batches p ds (BATCH_SIZE * 0) w)"
    by (rule add_batches_outcome) simp
  with False show ?thesis by (simp add: store_addDocuments_def)
qed

lemma map_doc_embedded: "map doc (map (embedded p c ds) [0..<length ds]) = ds"
  by (simp add: embedded_def comp_def map_nth)

lemma length_batch_texts:
  "length (batch_texts ds m) = min BATCH_SIZE (length ds - BATCH_SIZE * m)"
  by (simp add: batch_texts_def)

lemma concat_batches_take:
  "concat (map (batch_texts ds) [0..<k]) = map pageContent (take (BATCH_SIZE * k) ds)"
proof (induction k)
  case 0
  then show ?case by simp
next
  case (Suc k)
  have "take (BATCH_SIZE * k) ds @ take BATCH_SIZE (drop (BATCH_SIZE * k) ds) =
      take (BATCH_SIZE * Suc k) ds"
    unfolding batch_next[symmetric] by (rule take_add[symmetric])
  then have "map pageContent (take (BATCH_SIZE * k) ds) @ batch_texts ds k =
      map pageContent (take (BATCH_SIZE * Suc k) ds)"
    unfolding batch_texts_def map_append[symmetric] by (rule arg_cong)
  with Suc show ?case by simp
qed

lemma batch_count_covers: "n \<le> BATCH_SIZE * batch_count n"
  by (simp add: batch_count_def BATCH_SIZE_def)

lemma concat_batches:
  "concat (map (batch_texts ds) [0..<batch_count (length ds)]) = map pageContent ds"
  by (simp add: concat_batches_take batch_count_covers)

lemma batch_sizes_120:
  assumes "length ds = 120"
  shows "map (\<lambda>m. length (batch_texts ds m)) [0..<batch_count (length ds)] = [50, 50, 20]"
proof -
  have "batch_count (length ds) = 3" by (simp add: assms batch_count_def BATCH_SIZE_def)
  moreover have "[0..<3] = [0, 1, 2]" by (simp add: upt_rec)
  ultimately show ?thesis
    by (simp add: length_batch_texts assms BATCH_SIZE_def)
qed

lemma store_never_fails:
  assumes "\<forall>c texts. documents_failure p c texts = None"
  shows "fst (store_addDocuments p ds w) = Inr ()"
proof (cases "store_addDocuments p ds w")
  case (Pair r w')
  show ?thesis
  proof (cases r)
    case (Inl e)
    with Pair store_addDocuments_outcome[of p w ds] assms show ?thesis
      by (auto simp: batches_outcome_def)
  next
    case (Inr u)
    with Pair show ?thesis by simp
  qed
qed

text \<open>
  Claim C6. When \<open>addDocuments\<close> of the store returns normally for \<open>n\<close> documents, the
  provider has received, after the calls made before, exactly the calls for the batches
  0, 1, \<dots> in this order, \<open>n / 50\<close> rounded up of them; batch \<open>m\<close> has
  \<open>min 50 (n - 50 m)\<close> texts and the batches together are the texts of the documents in
  order; the index has grown by \<open>n\<close> records, whose documents are the input in order.
  For 120 documents the calls have 50, 50 and 20 texts.
\<close>

theorem addDocuments_batches_of_fifty:
  assumes "fst (store_addDocuments p documents w) = Inr ()"
  shows "calls (snd (store_addDocuments p documents w)) =
        calls w @ map (\<lambda>m. EmbedDocuments (batch_texts documents m))
                    [0..<batch_count (length documents)]
      \<and> batch_count (length documents) = (length documents + 49) div 50
      \<and> (\<forall>m. length (batch_texts documents m) = min 50 (length documents - 50 * m))
      \<and> concat (map (batch_texts documents) [0..<batch_count (length documents)]) =
          map pageContent documents
      \<and> (length documents = 120 \<longrightarrow>
          map (\<lambda>m. length (batch_texts documents m)) [0..<batch_count (length documents)] =
            [50, 50, 20])
      \<and> length (docs (snd (store_addDocuments p documents w))) = length (docs w) + length documents
      \<and> take (length (docs w)) (docs (snd (store_addDocuments p documents w))) = docs w
      \<and> map doc (drop (length (docs w)) (docs (snd (store_addDocuments p documents w)))) = documents"
proof -
  obtain r w' where r: "store_addDocuments p documents w = (r, w')"
    by (cases "store_addDocuments p documents w")
  with assms have "r = Inr ()" by simp
  with r store_addDocuments_outcome[of p w documents]
  have c: "calls w' = calls w @ map (batch_call documents) [0..<batch_count (length documents)]"
    and d: "docs w' = docs w @ map (embedded p (length (calls w)) documents) [0..<length documents]"
    by (simp_all add: batches_outcome_def)
  have c1: "calls w' = calls w @ map (\<lambda>m. EmbedDocuments (batch_texts documents m))
                    [0..<batch_count (length documents)]"
    using c by (simp add: batch_call_def[abs_def])
  have c2: "batch_count (length documents) = (length documents + 49) div 50"
    by (simp add: batch_count_def BATCH_SIZE_def)
  have c3: "\<forall>m. length (batch_texts documents m) = min 50 (length documents - 50 * m)"
    by (simp add: length_batch_texts BATCH_SIZE_def)
  note c4 = concat_batches[of documents]
  have c5: "length documents = 120 \<longrightarrow>
          map (\<lambda>m. length (batch_texts documents m)) [0..<batch_count (length documents)] =
            [50, 50, 20]"
    using batch_sizes_120[of documents] by blast
  have c6: "length (docs w') = length (docs w) + length documents"
    and c7: "take (length (docs w)) (docs w') = docs w"
    by (simp_all add: d)
  have c8: "map doc (drop (length (docs w)) (docs w')) = documents"
    unfolding d by (simp add: map_doc_embedded del: map_map)
  show ?thesis
    unfolding r snd_conv using c1 c2 c3 c4 c5 c6 c7 c8 by blast
qed

theorem addDocuments_batches_of_fifty_witness:
  "fst (store_addDocuments ex_provider (ex_documents 120) ex_world) = Inr ()
   \<and> map (\<lambda>c. case c of EmbedDocuments texts \<Rightarrow> length texts | EmbedQuery q \<Rightarrow> 0)
        (calls (snd (store_addDocuments ex_provider (ex_documents 120) ex_world))) = [50, 50, 20]
   \<and> length (docs (snd (store_addDocuments ex_provider (ex_documents 120) ex_world))) = 3 + 120
   \<and> map doc (drop 3 (docs (snd (store_addDocuments ex_provider (ex_documents 120) ex_world)))) =
        ex_documents 120"
proof -
  have h: "fst (store_addDocuments ex_provider (ex_documents 120) ex_world) = Inr ()"
    by (rule store_never_fails) (simp add: ex_provider_def)
  have l: "length (ex_documents 120) = 120" "length (docs ex_world) = 3" "calls ex_world = []"
    by (simp_all add: ex_documents_def ex_world_def)
  note T = addDocuments_batches_of_fifty[OF h]
  from T l(1) have s: "map (\<lambda>m. length (batch_texts (ex_documents 120) m))
       [0..<batch_count (length (ex_documents 120))] = [50, 50, 20]"
    by blast
  from T have "calls (snd (store_addDocuments ex_provider (ex_documents 120) ex_world)) =
        calls ex_world @ map (\<lambda>m. EmbedDocuments (batch_texts (ex_documents 120) m))
                    [0..<batch_count (length (ex_documents 120))]"
    by blast
  then have c: "map (\<lambda>c. case c of EmbedDocuments texts \<Rightarrow> length texts | EmbedQuery q \<Rightarrow> 0)
        (calls (snd (store_addDocuments ex_provider (ex_documents 120) ex_world))) =
      map (\<lambda>m. length (batch_texts (ex_documents 120) m))
       [0..<batch_count (length (ex_documents 120))]"
    by (simp add: l(3) comp_def)
  from T have "length (docs (snd (store_addDocuments ex_provider (ex_documents 120) ex_world))) =
      length (docs ex_world) + length (ex_documents 120)"
    and "map doc (drop (length (docs ex_world))
        (docs (snd (store_addDocuments ex_provider (ex_documents 120) ex_world)))) = ex_documents 120"
    by blast+
  with h c s l show ?thesis by simp
qed

subsection \<open>The facade: chunks, and a failed batch\<close>

lemma length_make_chunks [simp]: "length (make_chunks documents) = length documents"
  by (simp add: make_chunks_def)

lemma nth_make_chunks:
  "i < length documents \<Longrightarrow> make_chunks documents ! i = make_chunk i (documents ! i)"
  by (simp add: make_chunks_def nth_enumerate_eq)

lemma nullish_lacks: "nullish (opt_chunkIndex (bmetadata d)) = lacks_chunkIndex d"
  by (auto simp: nullish_def opt_chunkIndex_def lacks_chunkIndex_def
      split: option.splits)

lemma make_chunk_props:
  "pageContent (make_chunk i d) = content d"
  "lacks_chunkIndex d \<Longrightarrow> metadata (make_chunk i d) ''chunkIndex'' = Some (JNumber (Num (real i)))"
  "\<not> lacks_chunkIndex d \<Longrightarrow>
     metadata (make_chunk i d) ''chunkIndex'' = spread (bmetadata d) ''chunkIndex''"
  "key \<noteq> ''chunkIndex'' \<Longrightarrow> metadata (make_chunk i d) key = spread (bmetadata d) key"
     apply (simp_all add: make_chunk_def nullish_lacks)
  apply (auto simp: lacks_chunkIndex_def opt_chunkIndex_def spread_def
      split: option.splits)
  done

lemma addDocuments_success_docs:
  assumes "fst (addDocuments p documents w) = Inr ()"
  shows "docs (snd (addDocuments p documents w)) =
      docs w @ map (embedded p (length (calls w)) (make_chunks documents)) [0..<length documents]"
proof -
  let ?w0 = "say (LogAdding (length documents)) w"
  obtain r w1 where r: "store_addDocuments p (make_chunks documents) ?w0 = (r, w1)"
    by (cases "store_addDocuments p (make_chunks documents) ?w0")
  show ?thesis
  proof (cases r)
    case (Inl e)
    with r assms show ?thesis by (simp add: addDocuments_def)
  next
    case (Inr u)
    with r store_addDocuments_outcome[of p ?w0 "make_chunks documents"]
    have "docs w1 = docs w @ map (embedded p (length (calls w)) (make_chunks documents))
        [0..<length documents]"
      by (simp add: batches_outcome_def)
    with r Inr show ?thesis
      by (simp add: addDocuments_def saveToFile_def)
  qed
qed

text \<open>
  Claim C7. The facade builds one chunk per input document, in input order, with the
  document's content. A document that lacks an explicit \<open>chunkIndex\<close> gets its position
  in the input list as \<open>chunkIndex\<close>; one that has a \<open>chunkIndex\<close> keeps it; every other
  metadata key is carried over unchanged (and no other key appears). When the call
  returns normally these chunks are the documents of the records appended to the index.
\<close>

theorem addDocuments_default_chunkIndex:
  "length (make_chunks documents) = length documents
   \<and> (\<forall>i<length documents.
        pageContent (make_chunks documents ! i) = content (documents ! i)
        \<and> (lacks_chunkIndex (documents ! i) \<longrightarrow>
             metadata (make_chunks documents ! i) ''chunkIndex'' = Some (JNumber (Num (real i))))
        \<and> (\<not> lacks_chunkIndex (documents ! i) \<longrightarrow>
             metadata (make_chunks documents ! i) ''chunkIndex'' =
               spread (bmetadata (documents ! i)) ''chunkIndex'')
        \<and> (\<forall>key. key \<noteq> ''chunkIndex'' \<longrightarrow>
             metadata (make_chunks documents ! i) key = spread (bmetadata (documents ! i)) key))
   \<and> (fst (addDocuments p documents w) = Inr () \<longrightarrow>
        take (length (docs w)) (docs (snd (addDocuments p documents w))) = docs w
        \<and> map doc (drop (length (docs w)) (docs (snd (addDocuments p documents w)))) =
            make_chunks documents)"
proof -
  have "map doc (map (embedded p (length (calls w)) (make_chunks documents)) [0..<length documents]) =
      make_chunks documents"
    using map_doc_embedded[of p "length (calls w)" "make_chunks documents"] by simp
  then show ?thesis
    using addDocuments_success_docs[of p documents w]
    by (simp add: nth_make_chunks make_chunk_props del: map_map)
qed

lemma addDocuments_never_fails:
  assumes "\<forall>c texts. documents_failure p c texts = None"
  shows "fst (addDocuments p documents w) = Inr ()"
proof -
  let ?w0 = "say (LogAdding (length documents)) w"
  obtain r w1 where r: "store_addDocuments p (make_chunks documents) ?w0 = (r, w1)"
    by (cases "store_addDocuments p (make_chunks documents) ?w0")
  with store_never_fails[OF assms, of "make_chunks documents" ?w0] have "r = Inr ()" by simp
  with r show ?thesis by (simp add: addDocuments_def)
qed

theorem addDocuments_default_chunkIndex_witness:
  "length ex_inputs = 4
   \<and> lacks_chunkIndex (ex_inputs ! 0) \<and> lacks_chunkIndex (ex_inputs ! 1)
   \<and> lacks_chunkIndex (ex_inputs ! 2) \<and> \<not> lacks_chunkIndex (ex_inputs ! 3)
   \<and> map (\<lambda>c. metadata c ''chunkIndex'') (make_chunks ex_inputs) =
       [Some (JNumber (Num 0)), Some (JNumber (Num 1)), Some (JNumber (Num 2)),
        Some (JNumber (Num 7))]
   \<and> metadata (make_chunks ex_inputs ! 3) ''year'' = Some (JNumber (Num 2021))
   \<and> fst (addDocuments ex_provider ex_inputs ex_world) = Inr ()
   \<and> map doc (drop 3 (docs (snd (addDocuments ex_provider ex_inputs ex_world)))) =
       make_chunks ex_inputs"
proof -
  note T = addDocuments_default_chunkIndex[of ex_inputs ex_provider ex_world]
  have n: "length ex_inputs = 4" by (simp add: ex_inputs_def)
  have l: "lacks_chunkIndex (ex_inputs ! 0)" "lacks_chunkIndex (ex_inputs ! 1)"
    "lacks_chunkIndex (ex_inputs ! 2)" "\<not> lacks_chunkIndex (ex_inputs ! 3)"
    by (simp_all add: ex_inputs_def lacks_chunkIndex_def)
  have s: "spread (bmetadata (ex_inputs ! 3)) ''chunkIndex'' = Some (JNumber (Num 7))"
    "spread (bmetadata (ex_inputs ! 3)) ''year'' = Some (JNumber (Num 2021))"
    by (simp_all add: ex_inputs_def spread_def)
  have h: "fst (addDocuments ex_provider ex_inputs ex_world) = Inr ()"
    by (rule addDocuments_never_fails) (simp add: ex_provider_def)
  from T n l have c: "metadata (make_chunks ex_inputs ! 0) ''chunkIndex'' = Some (JNumber (Num (real 0)))"
    "metadata (make_chunks ex_inputs ! 1) ''chunkIndex'' = Some (JNumber (Num (real 1)))"
    "metadata (make_chunks ex_inputs ! 2) ''chunkIndex'' = Some (JNumber (Num (real 2)))"
    "metadata (make_chunks ex_inputs ! 3) ''chunkIndex'' = spread (bmetadata (ex_inputs ! 3)) ''chunkIndex''"
    "metadata (make_chunks ex_inputs ! 3) ''year'' = spread (bmetadata (ex_inputs ! 3)) ''year''"
    by simp_all
  from T n have len: "length (make_chunks ex_inputs) = 4" by simp
  have "make_chunks ex_inputs = map (\<lambda>i. make_chunks ex_inputs ! i) [0..<4]"
    using map_nth[of "make_chunks ex_inputs"] len by simp
  also have "[0..<4] = [0, 1, 2, 3::nat]" by (simp add: upt_rec)
  finally have m: "make_chunks ex_inputs =
      [make_chunks ex_inputs ! 0, make_chunks ex_inputs ! 1, make_chunks ex_inputs ! 2,
       make_chunks ex_inputs ! 3]" by simp
  have cs: "map (\<lambda>c. metadata c ''chunkIndex'') (make_chunks ex_inputs) =
       [Some (JNumber (Num 0)), Some (JNumber (Num 1)), Some (JNumber (Num 2)),
        Some (JNumber (Num 7))]"
    using c s by (subst m) simp
  from T h have d: "map doc (drop (length (docs ex_world))
      (docs (snd (addDocuments ex_provider ex_inputs ex_world)))) = make_chunks ex_inputs"
    by blast
  have "length (docs ex_world) = 3" by (simp add: ex_world_def)
  with d n l cs c(5) s(2) h show ?thesis by simp
qed

text \<open>
  Claim C4. Let the provider fail with \<open>e\<close> on the call for batch \<open>m\<close> of a run of
  \<open>addDocuments\<close>, the calls for the batches before it succeeding. Then the operation
  fails with \<open>e\<close>, at the store and at the facade; no file is written or changed; the
  index holds what it held before followed by the records of the batches before \<open>m\<close>,
  each document with the vector the provider returned for it; and the provider was
  called for the batches up to \<open>m\<close> and no further.
\<close>

theorem addDocuments_failed_batch_keeps_earlier_batches:
  assumes "BATCH_SIZE * m < length documents"
    and "documents_failure p (length (calls w) + m) (batch_texts (make_chunks documents) m) = Some e"
    and "\<forall>m'<m. documents_failure p (length (calls w) + m')
            (batch_texts (make_chunks documents) m') = None"
  shows "fst (addDocuments p documents w) = Inl e
      \<and> fst (store_addDocuments p (make_chunks documents) (say (LogAdding (length documents)) w)) = Inl e
      \<and> files (snd (addDocuments p documents w)) = files w
      \<and> docs (snd (addDocuments p documents w)) =
          docs w @ map (embedded p (length (calls w)) (make_chunks documents)) [0..<BATCH_SIZE * m]
      \<and> calls (snd (addDocuments p documents w)) =
          calls w @ map (batch_call (make_chunks documents)) [0..<Suc m]"
proof -
  let ?w0 = "say (LogAdding (length documents)) w"
  let ?cs = "make_chunks documents"
  obtain r w1 where r: "store_addDocuments p ?cs ?w0 = (r, w1)"
    by (cases "store_addDocuments p ?cs ?w0")
  note O = store_addDocuments_outcome[of p ?w0 ?cs, unfolded r]
  show ?thesis
  proof (cases r)
    case (Inr u)
    with O have "\<forall>m. BATCH_SIZE * m < length documents \<longrightarrow>
        documents_failure p (length (calls w) + m) (batch_texts ?cs m) = None"
      by (simp add: batches_outcome_def)
    with assms(1,2) show ?thesis by simp
  next
    case (Inl e')
    with O obtain k where k: "BATCH_SIZE * k < length documents"
      "documents_failure p (length (calls w) + k) (batch_texts ?cs k) = Some e'"
      "\<forall>m'. m' < k \<longrightarrow> documents_failure p (length (calls w) + m') (batch_texts ?cs m') = None"
      and d: "docs w1 = docs w @ map (embedded p (length (calls w)) ?cs) [0..<BATCH_SIZE * k]"
      and c: "calls w1 = calls w @ map (batch_call ?cs) [0..<Suc k]"
      and f: "files w1 = files w"
      by (auto simp: batches_outcome_def)
    have "k = m"
    proof (rule ccontr)
      assume "k \<noteq> m"
      then consider "k < m" | "m < k" by linarith
      then show False
      proof cases
        case 1
        with assms(3) k(2) show False by simp
      next
        case 2
        with k(3) assms(2) show False by simp
      qed
    qed
    with k(2) assms(2) have "e' = e" by simp
    with r Inl d c f \<open>k = m\<close> show ?thesis
      by (simp add: addDocuments_def)
  qed
qed

theorem addDocuments_failed_batch_keeps_earlier_batches_witness:
  "fst (addDocuments flaky_provider ex_sixty ex_world) = Inl (ProviderError ''rate limit'')
   \<and> files (snd (addDocuments flaky_provider ex_sixty ex_world)) = files ex_world
   \<and> length (docs (snd (addDocuments flaky_provider ex_sixty ex_world))) = 3 + 50
   \<and> length (calls (snd (addDocuments flaky_provider ex_sixty ex_world))) = 2
   \<and> (\<exists>chunks. fst (query flaky_provider ''moat'' 100 None
                       (snd (addDocuments flaky_provider ex_sixty ex_world))) = Inr chunks
        \<and> length chunks = 53)"
proof -
  have h1: "BATCH_SIZE * 1 < length ex_sixty"
    by (simp add: BATCH_SIZE_def ex_sixty_def)
  have h2: "documents_failure flaky_provider (length (calls ex_world) + 1)
      (batch_texts (make_chunks ex_sixty) 1) = Some (ProviderError ''rate limit'')"
    by (simp add: flaky_provider_def ex_world_def)
  have h3: "\<forall>m'<1. documents_failure flaky_provider (length (calls ex_world) + m')
      (batch_texts (make_chunks ex_sixty) m') = None"
    by (simp add: flaky_provider_def ex_world_def)
  note T = addDocuments_failed_batch_keeps_earlier_batches[OF h1 h2 h3]
  let ?w = "snd (addDocuments flaky_provider ex_sixty ex_world)"
  from T have r: "fst (addDocuments flaky_provider ex_sixty ex_world) = Inl (ProviderError ''rate limit'')"
    and f: "files ?w = files ex_world"
    and d: "docs ?w = docs ex_world @
        map (embedded flaky_provider (length (calls ex_world)) (make_chunks ex_sixty))
          [0..<BATCH_SIZE * 1]"
    and c: "calls ?w = calls ex_world @ map (batch_call (make_chunks ex_sixty)) [0..<Suc 1]"
    by blast+
  have ld: "length (docs ?w) = 3 + 50"
    unfolding d by (simp add: ex_world_def BATCH_SIZE_def)
  have lc: "length (calls ?w) = 2"
    unfolding c by (simp add: ex_world_def)
  have "embedQuery flaky_provider (length (calls ?w)) ''moat'' = Inr [1, 0]"
    by (simp add: embedQuery_def flaky_provider_def)
  moreover have "int (length (docs ?w)) \<le> 100" by (simp add: ld)
  ultimately obtain chunks where q: "fst (query flaky_provider ''moat'' 100 None ?w) = Inr chunks"
    and m: "mset chunks =
      image_mset (\<lambda>r. to_berkshire (doc r)) (filter_mset (survives None) (mset (docs ?w)))"
    using query_all_survivors[of flaky_provider ?w "''moat''" "[1, 0]" 100 None] by blast
  have "filter_mset (survives None) (mset (docs ?w)) = mset (docs ?w)"
    by (rule filter_mset_eq_conv[THEN iffD2]) (simp add: survives_def)
  then have "size (mset chunks) = length (docs ?w)"
    unfolding m by simp
  then have "length chunks = 53" by (simp add: ld)
  with r f ld lc q show ?thesis by blast
qed

subsection \<open>Persistence: save, then load\<close>

lemma json_value_exact: "json_exact v \<Longrightarrow> json_value v = Some v"
  by (induction v rule: json_exact.induct) simp_all

lemma json_metadata_exact:
  assumes "\<forall>v\<in>ran m. json_exact v"
  shows "json_metadata m = m"
proof
  fix key
  show "json_metadata m key = m key"
  proof (cases "m key")
    case None
    then show ?thesis by (simp add: json_metadata_def)
  next
    case (Some v)
    then have "v \<in> ran m" by (auto simp: ran_def)
    with assms have "json_exact v" by blast
    with Some show ?thesis by (simp add: json_metadata_def json_value_exact)
  qed
qed

lemma json_record_exact: "json_exact_record r \<Longrightarrow> json_record r = r"
  by (simp add: json_record_def json_exact_record_def json_metadata_exact)

lemma json_metadata_entry:
  "m key = Some v \<Longrightarrow> json_exact v \<Longrightarrow> json_metadata m key = Some v"
  by (simp add: json_metadata_def json_value_exact)

lemma load_after_save:
  "loadFromFile path (saveToFile path w) =
     (True, Intact (say (LogLoaded (length (docs w)) path)
              ((saveToFile path w)\<lparr>docs := map json_record (docs w)\<rparr>)))"
  by (simp add: loadFromFile_def saveToFile_def)

text \<open>
  The claim C2 as it is stated fails for this index: after saving and loading, the
  record has lost its \<open>year\<close> and its \<open>ratio\<close> is \<open>null\<close>, so the index is not the one saved.
\<close>

theorem save_load_counterexample:
  "snd (loadFromFile VECTORS_FILE (saveToFile VECTORS_FILE ex_world_lossy)) =
     Intact (say (LogLoaded 1 VECTORS_FILE)
       ((saveToFile VECTORS_FILE ex_world_lossy)\<lparr>docs := map json_record (docs ex_world_lossy)\<rparr>))
   \<and> map json_record (docs ex_world_lossy) \<noteq> docs ex_world_lossy
   \<and> metadata (doc (hd (docs ex_world_lossy))) ''year'' = Some JUndefined
   \<and> metadata (doc (hd (map json_record (docs ex_world_lossy)))) ''year'' = None
   \<and> metadata (doc (hd (docs ex_world_lossy))) ''ratio'' = Some (JNumber NaN)
   \<and> metadata (doc (hd (map json_record (docs ex_world_lossy)))) ''ratio'' = Some JNull"
proof -
  let ?after = "map json_record (docs ex_world_lossy)"
  have l: "snd (loadFromFile VECTORS_FILE (saveToFile VECTORS_FILE ex_world_lossy)) =
     Intact (say (LogLoaded 1 VECTORS_FILE)
       ((saveToFile VECTORS_FILE ex_world_lossy)\<lparr>docs := ?after\<rparr>))"
    by (simp add: load_after_save) (simp add: ex_world_lossy_def)
  have a: "metadata (doc (hd ?after)) ''year'' = None"
    and b: "metadata (doc (hd ?after)) ''ratio'' = Some JNull"
    by (simp_all add: ex_world_lossy_def json_record_def json_metadata_def)
  have c: "metadata (doc (hd (docs ex_world_lossy))) ''year'' = Some JUndefined"
    and d: "metadata (doc (hd (docs ex_world_lossy))) ''ratio'' = Some (JNumber NaN)"
    by (simp_all add: ex_world_lossy_def)
  from a c have "?after \<noteq> docs ex_world_lossy" by auto
  with l a b c d show ?thesis by blast
qed

text \<open>
  Claim C2, as the code has it. Saving to a path and loading from it succeeds and leaves
  in the index, for each record saved and in the same order, the record that JSON
  carries: the same content, the same embedding, and the metadata without the keys
  whose value is \<open>undefined\<close> and with \<open>null\<close> for the numbers that are not finite. Every
  metadata entry with a JSON-exact value is reproduced, and when all records are
  JSON-exact the index after loading is equal to the index saved.
\<close>

theorem save_then_load_reproduces_json_records:
  "fst (loadFromFile path (saveToFile path w))
   \<and> (\<exists>w'. snd (loadFromFile path (saveToFile path w)) = Intact w'
        \<and> docs w' = map json_record (docs w)
        \<and> length (docs w') = length (docs w)
        \<and> (\<forall>i<length (docs w).
             pageContent (doc (docs w' ! i)) = pageContent (doc (docs w ! i))
             \<and> embedding (docs w' ! i) = embedding (docs w ! i)
             \<and> (\<forall>key v. metadata (doc (docs w ! i)) key = Some v \<and> json_exact v \<longrightarrow>
                   metadata (doc (docs w' ! i)) key = Some v))
        \<and> ((\<forall>r\<in>set (docs w). json_exact_record r) \<longrightarrow> docs w' = docs w))"
proof -
  have "map json_record (docs w) = docs w" if "\<forall>r\<in>set (docs w). json_exact_record r"
    using that by (simp add: json_record_exact map_idI)
  then show ?thesis
    by (simp add: load_after_save json_record_def json_metadata_entry)
qed

theorem save_then_load_reproduces_json_records_witness:
  "list_all json_exact_record (docs ex_world)
   \<and> fst (loadFromFile VECTORS_FILE (saveToFile VECTORS_FILE ex_world))
   \<and> (\<exists>w'. snd (loadFromFile VECTORS_FILE (saveToFile VECTORS_FILE ex_world)) = Intact w'
        \<and> docs w' = docs ex_world)
   \<and> length (docs ex_world) = 3"
proof -
  have e: "\<forall>r\<in>set (docs ex_world). json_exact_record r"
    by (simp add: ex_world_def ex_record_def json_exact_record_def)
  from save_then_load_reproduces_json_records[of VECTORS_FILE ex_world] e
  have "fst (loadFromFile VECTORS_FILE (saveToFile VECTORS_FILE ex_world))"
    and "\<exists>w'. snd (loadFromFile VECTORS_FILE (saveToFile VECTORS_FILE ex_world)) = Intact w'
        \<and> docs w' = docs ex_world"
    by blast+
  moreover have "length (docs ex_world) = 3" by (simp add: ex_world_def)
  ultimately show ?thesis using e by (simp add: list_all_iff)
qed

subsection \<open>Loading and clearing\<close>

lemma query_empty_index:
  assumes "docs w = []"
  shows "fst (query p text k flt w) =
     (case embedQuery p (length (calls w)) text of Inl e \<Rightarrow> Inl e | Inr q \<Rightarrow> Inr [])"
  using assms
  by (simp add: query_def similaritySearch_def scored_def List.map_filter_simps js_sort_def
      js_slice0_def split: sum.splits)

lemma load_cases:
  "files w path = None \<Longrightarrow> loadFromFile path w = (False, Intact w)"
  "files w path = Some Unparseable \<Longrightarrow>
     loadFromFile path w = (False, Intact (say (ErrFailedLoad SyntaxError) w))"
  "files w path = Some (Snapshot ds) \<Longrightarrow>
     loadFromFile path w = (True, Intact (say (LogLoaded (length ds) path) (w\<lparr>docs := ds\<rparr>)))"
  "files w path = Some NullText \<Longrightarrow>
     loadFromFile path w =
       (False, Clobbered ForeignNull (files w) (calls w) (console w @ [ErrFailedLoad TypeError]))"
  "files w path = Some OtherJson \<Longrightarrow>
     loadFromFile path w =
       (True, Clobbered ForeignOther (files w) (calls w) (console w @ [LogLoadedForeign path]))"
  by (simp_all add: loadFromFile_def)

lemma query_loaded_intact:
  "fst (query_loaded p text k flt (Intact w)) = fst (query p text k flt w)"
  by (cases "query p text k flt w") (simp add: query_loaded_def)

lemma query_loaded_clobbered:
  "embedQuery p (length cs) text = Inr q \<Longrightarrow>
     fst (query_loaded p text k flt (Clobbered v fs cs con)) = Inl TypeError"
  by (simp add: query_loaded_def)

text \<open>
  The claim C5 as it is stated fails for these two states, in which three records are
  in memory and the snapshot file exists and is not a snapshot. With the text \<open>null\<close>
  in the file the load takes its failure path: it returns \<open>false\<close> and writes the failure
  to the console. But the records in memory have been replaced (by \<open>null\<close>), and the
  error reaches the caller with the next query, on the store itself and on a facade
  constructed over this file; before the load the same query returned two chunks. With
  a JSON object in the file the load returns \<open>true\<close>, and the next query on a facade
  constructed over the file fails in the same way.
\<close>

theorem load_null_counterexample:
  "files ex_world_null VECTORS_FILE = Some NullText
   \<and> length (docs ex_world_null) = 3
   \<and> fst (query ex_provider ''moat'' 2 None ex_world_null) =
       Inr [to_berkshire (doc (ex_record ''a'' 2020 [1, 0])), to_berkshire (doc (ex_record ''c'' 2020 [1, 0]))]
   \<and> fst (loadFromFile VECTORS_FILE ex_world_null) = False
   \<and> snd (loadFromFile VECTORS_FILE ex_world_null) =
       Clobbered ForeignNull [VECTORS_FILE \<mapsto> NullText] [] [ErrFailedLoad TypeError]
   \<and> fst (query_loaded ex_provider ''moat'' 2 None (snd (loadFromFile VECTORS_FILE ex_world_null))) =
       Inl TypeError
   \<and> new_store ex_world_null =
       Clobbered ForeignNull [VECTORS_FILE \<mapsto> NullText] [] [ErrFailedLoad TypeError]
   \<and> fst (query_loaded ex_provider ''moat'' 2 None (new_store ex_world_null)) = Inl TypeError
   \<and> files ex_world_object VECTORS_FILE = Some OtherJson
   \<and> fst (loadFromFile VECTORS_FILE ex_world_object) = True
   \<and> new_store ex_world_object =
       Clobbered ForeignOther [VECTORS_FILE \<mapsto> OtherJson] [] [LogLoadedForeign VECTORS_FILE]
   \<and> fst (query_loaded ex_provider ''moat'' 2 None (new_store ex_world_object)) = Inl TypeError"
proof -
  have f: "files ex_world_null VECTORS_FILE = Some NullText"
    and n: "length (docs ex_world_null) = 3"
    and f': "files ex_world_object VECTORS_FILE = Some OtherJson"
    by (simp_all add: ex_world_null_def ex_world_object_def ex_world_def)
  have q: "fst (query ex_provider ''moat'' 2 None ex_world_null) =
      Inr [to_berkshire (doc (ex_record ''a'' 2020 [1, 0])), to_berkshire (doc (ex_record ''c'' 2020 [1, 0]))]"
    by (simp add: query_def similaritySearch_def embedQuery_def ex_provider_def ex_world_def
        ex_world_null_def scored_def List.map_filter_simps survives_def ex_record_def ex_scores
        js_sort_def score_cmp_def js_sub_def js_slice0_def)
  have l: "loadFromFile VECTORS_FILE ex_world_null =
      (False, Clobbered ForeignNull [VECTORS_FILE \<mapsto> NullText] [] [ErrFailedLoad TypeError])"
    by (simp add: loadFromFile_def ex_world_null_def ex_world_def)
  have c: "new_store ex_world_null =
      Clobbered ForeignNull [VECTORS_FILE \<mapsto> NullText] [] [ErrFailedLoad TypeError]"
    by (simp add: new_store_def loadFromFile_def ex_world_null_def ex_world_def)
  have l': "fst (loadFromFile VECTORS_FILE ex_world_object) = True"
    by (simp add: loadFromFile_def ex_world_object_def ex_world_def)
  have c': "new_store ex_world_object =
      Clobbered ForeignOther [VECTORS_FILE \<mapsto> OtherJson] [] [LogLoadedForeign VECTORS_FILE]"
    by (simp add: new_store_def loadFromFile_def ex_world_object_def ex_world_def)
  have e: "embedQuery ex_provider (length ([] :: provider_call list)) ''moat'' = Inr [1, 0]"
    by (simp add: embedQuery_def ex_provider_def)
  have t: "fst (query_loaded ex_provider ''moat'' 2 None
      (Clobbered ForeignNull [VECTORS_FILE \<mapsto> NullText] [] [ErrFailedLoad TypeError])) = Inl TypeError"
    using e by (rule query_loaded_clobbered)
  have t': "fst (query_loaded ex_provider ''moat'' 2 None
      (Clobbered ForeignOther [VECTORS_FILE \<mapsto> OtherJson] [] [LogLoadedForeign VECTORS_FILE])) = Inl TypeError"
    using e by (rule query_loaded_clobbered)
  show ?thesis using f n q l c t f' l' c' t' by simp
qed

text \<open>
  Among the loads that return \<open>false\<close>, the ones that have kept the records in memory
  are those of an absent file and of a file whose text is not JSON.
\<close>

lemma failed_load_keeps_records_iff:
  "(\<not> fst (loadFromFile path w) \<and> (\<exists>w'. snd (loadFromFile path w) = Intact w' \<and> docs w' = docs w))
     \<longleftrightarrow> (files w path = None \<or> files w path = Some Unparseable)"
proof (cases "files w path")
  case None
  then show ?thesis by (simp add: load_cases)
next
  case (Some c)
  then show ?thesis by (cases c) (simp_all add: load_cases)
qed

text \<open>
  Claim C5, as the code has it. Loading from a path where no file is returns \<open>false\<close> and
  changes nothing. Loading a file whose text is not JSON returns \<open>false\<close> as well; the
  failure is written to the console and nothing else changes: the records in memory
  are not replaced. In both cases the facade constructed over such a snapshot file
  starts with an empty index, on which a query returns the empty list when the provider
  answers. \<open>loadFromFile\<close> has no error result: the exception of the parser ends in its
  \<open>catch\<close>.
\<close>

theorem load_absent_or_unparseable_is_false:
  "(files w path = None \<longrightarrow> loadFromFile path w = (False, Intact w))
   \<and> (files w path = Some Unparseable \<longrightarrow>
        loadFromFile path w = (False, Intact (say (ErrFailedLoad SyntaxError) w))
        \<and> docs (say (ErrFailedLoad SyntaxError) w) = docs w
        \<and> files (say (ErrFailedLoad SyntaxError) w) = files w
        \<and> console (say (ErrFailedLoad SyntaxError) w) = console w @ [ErrFailedLoad SyntaxError])
   \<and> (files w VECTORS_FILE = None \<or> files w VECTORS_FILE = Some Unparseable \<longrightarrow>
        (\<exists>w'. new_store w = Intact w' \<and> docs w' = [] \<and> files w' = files w
           \<and> calls w' = calls w
           \<and> (embedQuery p (length (calls w)) text = Inr q \<longrightarrow>
                fst (query_loaded p text k flt (new_store w)) = Inr [])))"
proof -
  have b: "\<exists>w'. new_store w = Intact w' \<and> docs w' = [] \<and> files w' = files w
           \<and> calls w' = calls w
           \<and> (embedQuery p (length (calls w)) text = Inr q \<longrightarrow>
                fst (query_loaded p text k flt (new_store w)) = Inr [])"
    if "files w VECTORS_FILE = None \<or> files w VECTORS_FILE = Some Unparseable"
  proof -
    from that obtain w' where w': "new_store w = Intact w'" "docs w' = []" "files w' = files w"
      "calls w' = calls w"
      by (auto simp: new_store_def loadFromFile_def)
    have "fst (query_loaded p text k flt (new_store w)) = Inr []"
      if "embedQuery p (length (calls w)) text = Inr q"
      using that w' query_empty_index[of w' p "text" k flt] by (simp add: query_loaded_intact)
    with w' show ?thesis by simp
  qed
  show ?thesis using b by (simp add: load_cases)
qed

theorem load_absent_or_unparseable_is_false_witness:
  "files ex_world VECTORS_FILE = None
   \<and> loadFromFile VECTORS_FILE ex_world = (False, Intact ex_world)
   \<and> (\<exists>w'. new_store ex_world = Intact w' \<and> docs w' = [])
   \<and> files ex_world_corrupt VECTORS_FILE = Some Unparseable
   \<and> docs ex_world_corrupt = docs ex_world
   \<and> loadFromFile VECTORS_FILE ex_world_corrupt =
       (False, Intact (say (ErrFailedLoad SyntaxError) ex_world_corrupt))
   \<and> docs (say (ErrFailedLoad SyntaxError) ex_world_corrupt) = docs ex_world
   \<and> console (say (ErrFailedLoad SyntaxError) ex_world_corrupt) = [ErrFailedLoad SyntaxError]
   \<and> (\<exists>w'. new_store ex_world_corrupt = Intact w' \<and> docs w' = [])
   \<and> embedQuery ex_provider (length (calls ex_world_corrupt)) ''moat'' = Inr [1, 0]
   \<and> fst (query_loaded ex_provider ''moat'' 2 None (new_store ex_world_corrupt)) = Inr []"
proof -
  have a: "files ex_world VECTORS_FILE = None"
    and b: "files ex_world_corrupt VECTORS_FILE = Some Unparseable"
    and c: "docs ex_world_corrupt = docs ex_world" "console ex_world_corrupt = []"
    by (simp_all add: ex_world_def ex_world_corrupt_def)
  have e: "embedQuery ex_provider (length (calls ex_world_corrupt)) ''moat'' = Inr [1, 0]"
    by (simp add: embedQuery_def ex_provider_def)
  note T1 = load_absent_or_unparseable_is_false[of ex_world VECTORS_FILE ex_provider "''moat''" "[1, 0]" 2 None]
  note T2 = load_absent_or_unparseable_is_false[of ex_world_corrupt VECTORS_FILE ex_provider "''moat''" "[1, 0]" 2 None]
  from T1 a have r1: "loadFromFile VECTORS_FILE ex_world = (False, Intact ex_world)"
    "\<exists>w'. new_store ex_world = Intact w' \<and> docs w' = []" by blast+
  from T2 b have r2: "loadFromFile VECTORS_FILE ex_world_corrupt =
      (False, Intact (say (ErrFailedLoad SyntaxError) ex_world_corrupt))"
    "docs (say (ErrFailedLoad SyntaxError) ex_world_corrupt) = docs ex_world_corrupt"
    "console (say (ErrFailedLoad SyntaxError) ex_world_corrupt) =
       console ex_world_corrupt @ [ErrFailedLoad SyntaxError]"
    by blast+
  from T2 b e have r3: "\<exists>w'. new_store ex_world_corrupt = Intact w' \<and> docs w' = []"
    "fst (query_loaded ex_provider ''moat'' 2 None (new_store ex_world_corrupt)) = Inr []"
    by blast+
  show ?thesis using a b c e r1 r2 r3 by simp
qed

lemma clearIndex_fields:
  "docs (clearIndex w) = []"
  "files (clearIndex w) = (files w)(VECTORS_FILE := None)"
  "calls (clearIndex w) = calls w"
  by (auto simp: clearIndex_def Let_def say_def)

lemma clearIndex_iterated:
  "docs ((clearIndex ^^ Suc n) w) = []"
  "files ((clearIndex ^^ Suc n) w) = (files w)(VECTORS_FILE := None)"
  "calls ((clearIndex ^^ Suc n) w) = calls w"
  by (induction n) (simp_all add: clearIndex_fields)

text \<open>
  Whatever a load has left in \<open>docs\<close>, \<open>clearIndex\<close> gives a state with an empty index and
  no snapshot file, the kind of state that claim C8 below is about.
\<close>

lemma clearIndex_loaded_fields:
  "docs (clearIndex_loaded l) = []" "files (clearIndex_loaded l) VECTORS_FILE = None"
  by (cases l; simp add: clearIndex_loaded_def clearIndex_fields)+

text \<open>
  Claim C8. After one call of \<open>clearIndex\<close> or more the index is empty and the snapshot
  file does not exist (the other files are untouched), and a further call changes
  neither. A query on the cleared index, whatever its text, \<open>k\<close> and filter, returns the
  empty list when the provider answers the query embedding, and the provider's error
  when it does not; a facade constructed then starts empty.
\<close>

theorem clearIndex_empties_and_is_idempotent:
  "docs ((clearIndex ^^ Suc n) w) = []
   \<and> files ((clearIndex ^^ Suc n) w) VECTORS_FILE = None
   \<and> (\<forall>path. path \<noteq> VECTORS_FILE \<longrightarrow> files ((clearIndex ^^ Suc n) w) path = files w path)
   \<and> docs (clearIndex (clearIndex w)) = docs (clearIndex w)
   \<and> files (clearIndex (clearIndex w)) = files (clearIndex w)
   \<and> (embedQuery p (length (calls w)) text = Inr q \<longrightarrow>
        fst (query p text k flt ((clearIndex ^^ Suc n) w)) = Inr [])
   \<and> (embedQuery p (length (calls w)) text = Inl e \<longrightarrow>
        fst (query p text k flt ((clearIndex ^^ Suc n) w)) = Inl e)
   \<and> (\<exists>w'. new_store ((clearIndex ^^ Suc n) w) = Intact w' \<and> docs w' = [])"
proof -
  have "fst (query p text k flt ((clearIndex ^^ Suc n) w)) =
     (case embedQuery p (length (calls w)) text of Inl e \<Rightarrow> Inl e | Inr q \<Rightarrow> Inr [])"
    using query_empty_index[of "(clearIndex ^^ Suc n) w" p "text" k flt]
    by (simp only: clearIndex_iterated)
  moreover have "\<exists>w'. new_store ((clearIndex ^^ Suc n) w) = Intact w' \<and> docs w' = []"
    by (simp add: new_store_def loadFromFile_def clearIndex_iterated del: funpow.simps)
  ultimately show ?thesis
    by (simp add: clearIndex_iterated clearIndex_fields del: funpow.simps)
qed

theorem clearIndex_empties_and_is_idempotent_witness:
  "docs ex_world_saved \<noteq> [] \<and> files ex_world_saved VECTORS_FILE \<noteq> None
   \<and> docs (clearIndex ex_world_saved) = []
   \<and> files (clearIndex ex_world_saved) VECTORS_FILE = None
   \<and> docs (clearIndex (clearIndex ex_world_saved)) = []
   \<and> files (clearIndex (clearIndex ex_world_saved)) VECTORS_FILE = None
   \<and> embedQuery ex_provider (length (calls ex_world_saved)) ''moat'' = Inr [1, 0]
   \<and> fst (query ex_provider ''moat'' 5 None (clearIndex ex_world_saved)) = Inr []
   \<and> fst (query ex_provider ''moat'' 5 (Some ex_filter_2020) (clearIndex (clearIndex ex_world_saved))) = Inr []
   \<and> embedQuery down_provider (length (calls ex_world_saved)) ''moat'' = Inl (ProviderError ''unreachable'')
   \<and> fst (query down_provider ''moat'' 5 None (clearIndex ex_world_saved)) =
       Inl (ProviderError ''unreachable'')"
proof -
  have a: "docs ex_world_saved \<noteq> []" "files ex_world_saved VECTORS_FILE \<noteq> None"
    by (simp_all add: ex_world_saved_def saveToFile_def ex_world_def)
  have e: "embedQuery ex_provider (length (calls ex_world_saved)) ''moat'' = Inr [1, 0]"
    by (simp add: embedQuery_def ex_provider_def)
  have d: "embedQuery down_provider (length (calls ex_world_saved)) ''moat'' =
      Inl (ProviderError ''unreachable'')"
    by (simp add: embedQuery_def down_provider_def)
  note T2 = clearIndex_empties_and_is_idempotent[of 0 ex_world_saved down_provider "''moat''" _ 5 None
      "ProviderError ''unreachable''"]
  note T0 = clearIndex_empties_and_is_idempotent[of 0 ex_world_saved ex_provider "''moat''" "[1, 0]" 5 None]
  note T1 = clearIndex_empties_and_is_idempotent[of 1 ex_world_saved ex_provider "''moat''" "[1, 0]" 5
      "Some ex_filter_2020"]
  have p: "(clearIndex ^^ Suc 0) ex_world_saved = clearIndex ex_world_saved"
    "(clearIndex ^^ Suc 1) ex_world_saved = clearIndex (clearIndex ex_world_saved)"
    by simp_all
  from T0 e have "docs (clearIndex ex_world_saved) = []"
    "files (clearIndex ex_world_saved) VECTORS_FILE = None"
    "fst (query ex_provider ''moat'' 5 None (clearIndex ex_world_saved)) = Inr []"
    unfolding p by blast+
  moreover from T1 e have "docs (clearIndex (clearIndex ex_world_saved)) = []"
    "files (clearIndex (clearIndex ex_world_saved)) VECTORS_FILE = None"
    "fst (query ex_provider ''moat'' 5 (Some ex_filter_2020)
        (clearIndex (clearIndex ex_world_saved))) = Inr []"
    unfolding p by blast+
  moreover from T2 d have "fst (query down_provider ''moat'' 5 None (clearIndex ex_world_saved)) =
       Inl (ProviderError ''unreachable'')"
    unfolding p by blast
  ultimately show ?thesis using a e d by blast
qed

end
